theory Spec2Isabelle
  imports Complex_Main
begin

section \<open>Cohort-component population projection (ccmpp.h)\<close>

text \<open>
  The header is a template over a scalar \<open>Type\<close>. The embedding takes the scalar to be
  any linearly ordered field, that is, exact arithmetic. Eigen's dense arrays and vectors
  are lists, its dense matrices are lists of columns (Eigen stores a matrix column by
  column), and the sparse matrix is the list of its stored entries. Every precondition
  that Eigen checks by assertion (index in range, equal sizes of the operands of a
  coefficient-wise operation, no second \<open>insert\<close> at a stored position) and the division
  are branches of the model that return an error.
\<close>

subsection \<open>Errors and sequencing\<close>

datatype error = DivisionByZero | IndexOutOfRange | SizeMismatch | EntryExists

definition ebind :: "error + 'a \<Rightarrow> ('a \<Rightarrow> error + 'b) \<Rightarrow> error + 'b" where
  "ebind r f = (case r of Inl e \<Rightarrow> Inl e | Inr x \<Rightarrow> f x)"

text \<open>A counted \<open>for\<close> loop over the given index values, stopping at the first error.\<close>

fun for_loop :: "nat list \<Rightarrow> (nat \<Rightarrow> 's \<Rightarrow> error + 's) \<Rightarrow> 's \<Rightarrow> error + 's" where
  "for_loop [] body s = Inr s"
| "for_loop (i # is) body s = ebind (body i s) (for_loop is body)"

definition divide_checked :: "'a::field \<Rightarrow> 'a \<Rightarrow> error + 'a" where
  "divide_checked a b = (if b = 0 then Inl DivisionByZero else Inr (a / b))"

subsection \<open>Dense arrays\<close>

text \<open>\<open>xs[i]\<close> and \<open>xs(i)\<close>, read and written. Index expressions are C++ \<open>int\<close>s.\<close>

definition coeff_at :: "'a list \<Rightarrow> int \<Rightarrow> error + 'a" where
  "coeff_at xs i =
     (if 0 \<le> i \<and> i < int (length xs) then Inr (xs ! nat i) else Inl IndexOutOfRange)"

definition set_coeff :: "'a list \<Rightarrow> int \<Rightarrow> 'a \<Rightarrow> error + 'a list" where
  "set_coeff xs i v =
     (if 0 \<le> i \<and> i < int (length xs) then Inr (xs[nat i := v]) else Inl IndexOutOfRange)"

text \<open>\<open>xs.segment(start, n)\<close>, which is \<open>xs.block(start, 0, n, 1)\<close> on a column.\<close>

definition segment :: "'a list \<Rightarrow> int \<Rightarrow> int \<Rightarrow> error + 'a list" where
  "segment xs start n =
     (if 0 \<le> start \<and> 0 \<le> n \<and> start + n \<le> int (length xs)
      then Inr (take (nat n) (drop (nat start) xs)) else Inl IndexOutOfRange)"

text \<open>A coefficient-wise binary operation; the operands must have the same size.\<close>

definition cw_binop :: "('a \<Rightarrow> 'a \<Rightarrow> 'a) \<Rightarrow> 'a list \<Rightarrow> 'a list \<Rightarrow> error + 'a list" where
  "cw_binop f xs ys = (if length xs = length ys then Inr (map2 f xs ys) else Inl SizeMismatch)"

text \<open>Assignment to a view of fixed size (an \<open>Eigen::Map\<close> or a column): no resizing.\<close>

definition assign_fixed :: "'a list \<Rightarrow> 'a list \<Rightarrow> error + 'a list" where
  "assign_fixed dst src = (if length src = length dst then Inr src else Inl SizeMismatch)"

text \<open>\<open>xs.segment(start, n) = ys\<close> and \<open>xs.segment(start, n) += ys\<close>.\<close>

definition assign_segment :: "'a list \<Rightarrow> int \<Rightarrow> int \<Rightarrow> 'a list \<Rightarrow> error + 'a list" where
  "assign_segment xs start n ys =
     (if \<not> (0 \<le> start \<and> 0 \<le> n \<and> start + n \<le> int (length xs)) then Inl IndexOutOfRange
      else if int (length ys) \<noteq> n then Inl SizeMismatch
      else Inr (take (nat start) xs @ ys @ drop (nat (start + n)) xs))"

definition add_to_segment ::
  "'a::plus list \<Rightarrow> int \<Rightarrow> int \<Rightarrow> 'a list \<Rightarrow> error + 'a list" where
  "add_to_segment xs start n ys =
     ebind (segment xs start n) (\<lambda>old.
     ebind (cw_binop (+) old ys) (\<lambda>new.
     assign_segment xs start n new))"

subsection \<open>Sparse matrices\<close>

record 'a sparse =
  srows :: nat
  scols :: nat
  entries :: "((nat \<times> nat) \<times> 'a) list"

text \<open>
  \<open>m.insert(i, j) = v\<close>: the position must be inside the matrix and must not be stored
  already.
\<close>

definition insert_entry :: "'a sparse \<Rightarrow> int \<Rightarrow> int \<Rightarrow> 'a \<Rightarrow> error + 'a sparse" where
  "insert_entry m i j v =
     (if \<not> (0 \<le> i \<and> i < int (srows m) \<and> 0 \<le> j \<and> j < int (scols m)) then Inl IndexOutOfRange
      else if (nat i, nat j) \<in> set (map fst (entries m)) then Inl EntryExists
      else Inr (m\<lparr>entries := entries m @ [((nat i, nat j), v)]\<rparr>))"

text \<open>The coefficient at a position: the stored value, or zero.\<close>

definition coeff :: "'a::zero sparse \<Rightarrow> nat \<Rightarrow> nat \<Rightarrow> 'a" where
  "coeff m i j = (case map_of (entries m) (i, j) of None \<Rightarrow> 0 | Some v \<Rightarrow> v)"

text \<open>The number of stored entries of a column.\<close>

definition col_nnz :: "'a sparse \<Rightarrow> nat \<Rightarrow> nat" where
  "col_nnz m j = length (filter (\<lambda>e. snd (fst e) = j) (entries m))"

text \<open>Sparse matrix times dense vector: every stored entry contributes to its row.\<close>

definition sparse_times :: "'a::semiring_0 sparse \<Rightarrow> 'a list \<Rightarrow> error + 'a list" where
  "sparse_times m v =
     (if scols m \<noteq> length v then Inl SizeMismatch
      else Inr (map (\<lambda>i. sum_list (map (\<lambda>e. if fst (fst e) = i then snd e * v ! snd (fst e) else 0)
                                        (entries m)))
                    [0..<srows m]))"

subsection \<open>The Leslie matrix\<close>

text \<open>
  \<open>make_leslie_matrix(sx, fx, srb, age_span, fx_idx)\<close>. The arguments carry a suffix
  because the class below has members of the same names. \<open>reserve\<close> and
  \<open>makeCompressed\<close> change the storage of the matrix and not its entries, so they do not
  appear.
\<close>

definition make_leslie_matrix ::
  "'a::linordered_field list \<Rightarrow> 'a list \<Rightarrow> 'a \<Rightarrow> 'a \<Rightarrow> int \<Rightarrow> error + 'a sparse" where
  "make_leslie_matrix sx_v fx_v srb_v aspan fidx =
     ebind (coeff_at sx_v 0) (\<lambda>sx0.
     ebind (divide_checked (sx0 * 0.5 * aspan) (1 + srb_v)) (\<lambda>fert_k.
     let fxd = int (length fx_v);
         fert_leslie = replicate (nat (fxd + 1)) 0 in
     ebind (segment sx_v fidx fxd) (\<lambda>sx_block.
     ebind (cw_binop (*) fx_v sx_block) (\<lambda>fs.
     ebind (add_to_segment fert_leslie 0 fxd fs) (\<lambda>fert_leslie.
     ebind (add_to_segment fert_leslie 1 fxd fx_v) (\<lambda>fert_leslie.
     let fert_leslie = map (\<lambda>x. x * fert_k) fert_leslie;
         dim = int (length sx_v) - 1;
         leslie = \<lparr>srows = nat dim, scols = nat dim, entries = []\<rparr> in
     ebind (for_loop [0..<nat (fxd + 1)]
              (\<lambda>i m. ebind (coeff_at fert_leslie (int i))
                        (\<lambda>v. insert_entry m 0 (fidx + int i - 1) v)) leslie) (\<lambda>leslie.
     ebind (for_loop [1..<nat dim]
              (\<lambda>i m. ebind (coeff_at sx_v (int i))
                        (\<lambda>v. insert_entry m (int i) (int i - 1) v)) leslie) (\<lambda>leslie.
     ebind (coeff_at sx_v dim) (\<lambda>v.
     insert_entry leslie (dim - 1) (dim - 1) v)))))))))"

text \<open>The top-row value that the builder stores at offset \<open>i\<close> of the fertility block.\<close>

definition fert_entry :: "'a::linordered_field list \<Rightarrow> 'a list \<Rightarrow> 'a \<Rightarrow> 'a \<Rightarrow> int \<Rightarrow> nat \<Rightarrow> 'a" where
  "fert_entry sx_v fx_v srb_v aspan fidx i =
     (sx_v ! 0 * 0.5 * aspan / (1 + srb_v)) *
       ((if i < length fx_v then fx_v ! i * sx_v ! (nat fidx + i) else 0) +
        (if 0 < i then fx_v ! (i - 1) else 0))"

definition leslie_entries ::
  "'a::linordered_field list \<Rightarrow> 'a list \<Rightarrow> 'a \<Rightarrow> 'a \<Rightarrow> int \<Rightarrow> ((nat \<times> nat) \<times> 'a) list" where
  "leslie_entries sx_v fx_v srb_v aspan fidx =
     map (\<lambda>i. ((0, nat fidx + i - 1), fert_entry sx_v fx_v srb_v aspan fidx i)) [0..<length fx_v + 1] @
     map (\<lambda>i. ((i, i - 1), sx_v ! i)) [1..<length sx_v - 1] @
     [((length sx_v - 2, length sx_v - 2), sx_v ! (length sx_v - 1))]"

subsection \<open>Dense matrices\<close>

text \<open>
  A dense matrix keeps its number of rows and its columns, each a list of that length
  (\<open>matrix_ok\<close>). \<open>new_matrix\<close> is the allocation \<open>MatrixXXT(r, c)\<close>, whose
  coefficients C++ leaves uninitialised; here they are zero, and the projection writes
  every coefficient before it reads it.
\<close>

record 'a matrix =
  nrows :: nat
  columns :: "'a list list"

definition matrix_ok :: "'a matrix \<Rightarrow> nat \<Rightarrow> nat \<Rightarrow> bool" where
  "matrix_ok m r c \<longleftrightarrow>
     nrows m = r \<and> length (columns m) = c \<and> list_all (\<lambda>v. length v = r) (columns m)"

definition new_matrix :: "nat \<Rightarrow> nat \<Rightarrow> 'a::zero matrix" where
  "new_matrix r c = \<lparr>nrows = r, columns = replicate c (replicate r 0)\<rparr>"

text \<open>\<open>m.col(j)\<close>, read, and assigned as a whole.\<close>

definition col :: "'a matrix \<Rightarrow> nat \<Rightarrow> error + 'a list" where
  "col m j = (if j < length (columns m) then Inr (columns m ! j) else Inl IndexOutOfRange)"

definition set_col :: "'a matrix \<Rightarrow> nat \<Rightarrow> 'a list \<Rightarrow> error + 'a matrix" where
  "set_col m j v =
     (if \<not> j < length (columns m) then Inl IndexOutOfRange
      else if length v \<noteq> nrows m then Inl SizeMismatch
      else Inr (m\<lparr>columns := (columns m)[j := v]\<rparr>))"

text \<open>
  \<open>Map(m.col(j).data(), n)\<close>: the \<open>n\<close> coefficients of the column-major storage that
  start at the first coefficient of column \<open>j\<close>. This is column \<open>j\<close> when \<open>n\<close> is the
  number of rows, and runs into the next columns when \<open>n\<close> is larger.
\<close>

definition map_from_col :: "'a matrix \<Rightarrow> nat \<Rightarrow> int \<Rightarrow> error + 'a list" where
  "map_from_col m j n =
     (if \<not> j < length (columns m) then Inl IndexOutOfRange
      else if \<not> (0 \<le> n \<and> n \<le> int (length (concat (drop j (columns m))))) then Inl IndexOutOfRange
      else Inr (take (nat n) (concat (drop j (columns m)))))"

subsection \<open>The matrix-form projection\<close>

text \<open>The body of the loop of \<open>ccmpp_leslie\<close> (lines 57 to 60), for one \<open>step\<close>.\<close>

definition leslie_step ::
  "'a::linordered_field matrix \<Rightarrow> 'a matrix \<Rightarrow> 'a matrix \<Rightarrow> 'a list \<Rightarrow> 'a \<Rightarrow> int \<Rightarrow> nat
     \<Rightarrow> 'a matrix \<Rightarrow> error + 'a matrix" where
  "leslie_step sx_m fx_m gx_m srb_v aspan fidx step population_m =
     ebind (col population_m step) (\<lambda>p.
     ebind (col gx_m step) (\<lambda>g.
     ebind (cw_binop (*) p g) (\<lambda>migrants.
     ebind (col sx_m step) (\<lambda>s.
     ebind (col fx_m step) (\<lambda>f.
     ebind (coeff_at srb_v (int step)) (\<lambda>r.
     ebind (make_leslie_matrix s f r aspan fidx) (\<lambda>leslie.
     ebind (cw_binop (+) p (map ((*) 0.5) migrants)) (\<lambda>w.
     ebind (sparse_times leslie w) (\<lambda>lw.
     ebind (cw_binop (+) lw (map ((*) 0.5) migrants)) (\<lambda>next_population.
     set_col population_m (step + 1) next_population))))))))))"

definition ccmpp_leslie ::
  "'a::linordered_field list \<Rightarrow> 'a matrix \<Rightarrow> 'a matrix \<Rightarrow> 'a matrix \<Rightarrow> 'a list \<Rightarrow> 'a \<Rightarrow> int
     \<Rightarrow> error + 'a matrix" where
  "ccmpp_leslie basepop sx_m fx_m gx_m srb_v aspan fidx =
     (let nsteps = length (columns sx_m) in
      ebind (set_col (new_matrix (length basepop) (nsteps + 1)) 0 basepop) (\<lambda>population0.
      for_loop [0..<nsteps] (leslie_step sx_m fx_m gx_m srb_v aspan fidx) population0))"

subsection \<open>The direct projection\<close>

text \<open>
  The class \<open>PopulationProjection\<close>. The sizes are natural numbers: the constructor
  allocates matrices of these sizes, which Eigen refuses for a negative size. \<open>fx_idx\<close> is
  an \<open>int\<close> as in the source. \<open>infants\<close> is a row vector.
\<close>

record 'a PopulationProjection =
  n_ages :: nat
  n_steps :: nat
  n_fx :: nat
  fx_idx :: int
  age_span :: 'a
  sx :: "'a matrix"
  fx :: "'a matrix"
  gx :: "'a matrix"
  srb :: "'a list"
  population :: "'a matrix"
  deaths :: "'a matrix"
  births :: "'a matrix"
  infants :: "'a list"
  migrations :: "'a matrix"

text \<open>The constructor: the members are copied or allocated, then column 0 is the base population.\<close>

definition PopulationProjection_new ::
  "nat \<Rightarrow> nat \<Rightarrow> nat \<Rightarrow> int \<Rightarrow> 'a::linordered_field \<Rightarrow> 'a list \<Rightarrow> 'a matrix \<Rightarrow> 'a matrix \<Rightarrow> 'a matrix
     \<Rightarrow> 'a list \<Rightarrow> error + 'a PopulationProjection" where
  "PopulationProjection_new ages steps nfx fidx aspan basepop sx_m fx_m gx_m srb_v =
     ebind (set_col (new_matrix ages (steps + 1)) 0 basepop) (\<lambda>population0.
     Inr \<lparr>n_ages = ages, n_steps = steps, n_fx = nfx, fx_idx = fidx, age_span = aspan,
          sx = sx_m, fx = fx_m, gx = gx_m, srb = srb_v,
          population = population0,
          deaths = new_matrix (ages + 1) steps,
          births = new_matrix nfx steps,
          infants = replicate steps 0,
          migrations = new_matrix ages steps\<rparr>)"

text \<open>The body of the ageing loop: \<open>population_t(age) = population_t(age-1) - deaths_t(age)\<close>.\<close>

definition aging :: "'a::minus list \<Rightarrow> nat \<Rightarrow> 'a list \<Rightarrow> error + 'a list" where
  "aging deaths_t age population_t =
     ebind (coeff_at population_t (int age - 1)) (\<lambda>p.
     ebind (coeff_at deaths_t (int age)) (\<lambda>d.
     set_coeff population_t (int age) (p - d)))"

text \<open>
  The statements of \<open>step_projection\<close> after the views are bound (lines 140 to 159). The
  views \<open>population_t\<close>, \<open>migrations_t\<close>, \<open>deaths_t\<close>, \<open>births_t\<close> are the local lists;
  \<open>infants_t\<close>, a view of one coefficient, is a scalar. \<open>prev\<close> is \<open>population.col(step)\<close>.
  The result is the final content of the five views.
\<close>

definition step_body ::
  "nat \<Rightarrow> nat \<Rightarrow> int \<Rightarrow> 'a::linordered_field \<Rightarrow> 'a list \<Rightarrow> nat
     \<Rightarrow> 'a list \<Rightarrow> 'a list \<Rightarrow> 'a list \<Rightarrow> 'a list
     \<Rightarrow> 'a list \<Rightarrow> 'a list \<Rightarrow> 'a list \<Rightarrow> 'a list
     \<Rightarrow> error + ('a list \<times> 'a list \<times> 'a list \<times> 'a \<times> 'a list)" where
  "step_body ages nfx fidx aspan srb_v step sx_t fx_t gx_t prev
       population_t migrations_t deaths_t births_t =
     ebind (assign_fixed population_t prev) (\<lambda>population_t.
     ebind (cw_binop (*) population_t gx_t) (\<lambda>mg.
     ebind (assign_fixed migrations_t mg) (\<lambda>migrations_t.
     ebind (cw_binop (+) population_t (map ((*) 0.5) migrations_t)) (\<lambda>population_t.
     ebind (segment sx_t 1 (int ages)) (\<lambda>sx_seg.
     ebind (cw_binop (*) population_t (map ((-) 1) sx_seg)) (\<lambda>ds.
     ebind (assign_segment deaths_t 1 (int ages) ds) (\<lambda>deaths_t.
     ebind (segment population_t fidx (int nfx)) (\<lambda>pop_seg.
     ebind (cw_binop (*) (map ((*) (0.5 * aspan)) fx_t) pop_seg) (\<lambda>bs.
     ebind (assign_fixed births_t bs) (\<lambda>births_t.
     ebind (coeff_at population_t (int ages - 1)) (\<lambda>p_open.
     ebind (coeff_at deaths_t (int ages)) (\<lambda>d_open.
     let open_age_survivors = p_open - d_open in
     ebind (for_loop (rev [1..<ages]) (aging deaths_t) population_t) (\<lambda>population_t.
     ebind (coeff_at population_t (int ages - 1)) (\<lambda>p_last.
     ebind (set_coeff population_t (int ages - 1) (p_last + open_age_survivors)) (\<lambda>population_t.
     ebind (segment population_t fidx (int nfx)) (\<lambda>pop_seg.
     ebind (cw_binop (*) (map ((*) (0.5 * aspan)) fx_t) pop_seg) (\<lambda>bs.
     ebind (cw_binop (+) births_t bs) (\<lambda>births_t.
     ebind (coeff_at srb_v (int step)) (\<lambda>r.
     ebind (divide_checked (sum_list births_t) (1 + r)) (\<lambda>infants_t.
     ebind (coeff_at sx_t 0) (\<lambda>sx0.
     ebind (set_coeff deaths_t 0 (infants_t * (1 - sx0))) (\<lambda>deaths_t.
     ebind (coeff_at deaths_t 0) (\<lambda>d0.
     ebind (set_coeff population_t 0 (infants_t - d0)) (\<lambda>population_t.
     ebind (cw_binop (+) population_t (map ((*) 0.5) migrations_t)) (\<lambda>population_t.
     Inr (population_t, migrations_t, deaths_t, infants_t, births_t))))))))))))))))))))))))))"

text \<open>
  \<open>step_projection(step)\<close>: the views are bound (lines 130 to 138), the body runs on
  them, and what the views hold is the new content of the columns they map.
\<close>

definition step_projection ::
  "'a::linordered_field PopulationProjection \<Rightarrow> nat \<Rightarrow> error + 'a PopulationProjection" where
  "step_projection P step =
     ebind (map_from_col (sx P) step (int (n_ages P) + 1)) (\<lambda>sx_t.
     ebind (map_from_col (fx P) step (int (nrows (fx P)))) (\<lambda>fx_t.
     ebind (map_from_col (gx P) step (int (n_ages P))) (\<lambda>gx_t.
     ebind (col (population P) (step + 1)) (\<lambda>population_t.
     ebind (col (migrations P) step) (\<lambda>migrations_t.
     ebind (col (deaths P) step) (\<lambda>deaths_t.
     ebind (col (births P) step) (\<lambda>births_t.
     ebind (coeff_at (infants P) (int step)) (\<lambda>infants_old.
     ebind (col (population P) step) (\<lambda>prev.
     ebind (step_body (n_ages P) (n_fx P) (fx_idx P) (age_span P) (srb P) step
              sx_t fx_t gx_t prev population_t migrations_t deaths_t births_t)
       (\<lambda>(population_t, migrations_t, deaths_t, infants_t, births_t).
     ebind (set_col (population P) (step + 1) population_t) (\<lambda>population_m.
     ebind (set_col (migrations P) step migrations_t) (\<lambda>migrations_m.
     ebind (set_col (deaths P) step deaths_t) (\<lambda>deaths_m.
     ebind (set_col (births P) step births_t) (\<lambda>births_m.
     Inr (P\<lparr>population := population_m, deaths := deaths_m, births := births_m,
             infants := (infants P)[step := infants_t],
             migrations := migrations_m\<rparr>)))))))))))))))"

text \<open>\<open>ccmpp\<close>: the container is built and every step is run in order.\<close>

definition ccmpp ::
  "'a::linordered_field list \<Rightarrow> 'a matrix \<Rightarrow> 'a matrix \<Rightarrow> 'a matrix \<Rightarrow> 'a list \<Rightarrow> 'a \<Rightarrow> int
     \<Rightarrow> error + 'a PopulationProjection" where
  "ccmpp basepop sx_m fx_m gx_m srb_v aspan fidx =
     (let steps = length (columns sx_m);
          ages = length basepop;
          nfx = nrows fx_m in
      ebind (PopulationProjection_new ages steps nfx fidx aspan basepop sx_m fx_m gx_m srb_v)
        (\<lambda>proj. for_loop [0..<steps] (\<lambda>step proj. step_projection proj step) proj))"

subsection \<open>Shapes, totals and the closed form of one step\<close>

text \<open>The shape invariants of the data model, for the parameters and for the outputs.\<close>

definition shapes_ok :: "'a PopulationProjection \<Rightarrow> bool" where
  "shapes_ok P \<longleftrightarrow>
     matrix_ok (sx P) (n_ages P + 1) (n_steps P) \<and>
     matrix_ok (fx P) (n_fx P) (n_steps P) \<and>
     matrix_ok (gx P) (n_ages P) (n_steps P) \<and>
     length (srb P) = n_steps P \<and>
     matrix_ok (population P) (n_ages P) (n_steps P + 1) \<and>
     matrix_ok (deaths P) (n_ages P + 1) (n_steps P) \<and>
     matrix_ok (births P) (n_fx P) (n_steps P) \<and>
     length (infants P) = n_steps P \<and>
     matrix_ok (migrations P) (n_ages P) (n_steps P)"

text \<open>The total population of column \<open>k\<close> of either projection.\<close>

definition total_leslie ::
  "'a::linordered_field list \<Rightarrow> 'a matrix \<Rightarrow> 'a matrix \<Rightarrow> 'a matrix \<Rightarrow> 'a list \<Rightarrow> 'a \<Rightarrow> int \<Rightarrow> nat
     \<Rightarrow> error + 'a" where
  "total_leslie basepop sx_m fx_m gx_m srb_v aspan fidx k =
     ebind (ccmpp_leslie basepop sx_m fx_m gx_m srb_v aspan fidx) (\<lambda>m.
     ebind (col m k) (\<lambda>c. Inr (sum_list c)))"

definition total_direct ::
  "'a::linordered_field list \<Rightarrow> 'a matrix \<Rightarrow> 'a matrix \<Rightarrow> 'a matrix \<Rightarrow> 'a list \<Rightarrow> 'a \<Rightarrow> int \<Rightarrow> nat
     \<Rightarrow> error + 'a" where
  "total_direct basepop sx_m fx_m gx_m srb_v aspan fidx k =
     ebind (ccmpp basepop sx_m fx_m gx_m srb_v aspan fidx) (\<lambda>P.
     ebind (col (population P) k) (\<lambda>c. Inr (sum_list c)))"

text \<open>
  What one step computes, as functions of the previous population column \<open>prev\<close> and of
  the step's columns \<open>sx_t\<close>, \<open>fx_t\<close>, \<open>gx_t\<close> and scalar \<open>r = srb(step)\<close>. \<open>w\<close> is the
  working population after the first half of the migrants, \<open>da\<close> the deaths of ages
  \<open>1..n_ages\<close> (\<open>da ! a\<close> is \<open>deaths_t(a + 1)\<close>).
\<close>

definition b_migrations :: "'a::linordered_field list \<Rightarrow> 'a list \<Rightarrow> 'a list" where
  "b_migrations prev gx_t = map2 (*) prev gx_t"

definition b_working :: "'a::linordered_field list \<Rightarrow> 'a list \<Rightarrow> 'a list" where
  "b_working prev gx_t = map2 (+) prev (map ((*) 0.5) (b_migrations prev gx_t))"

definition b_deaths_adult :: "'a::linordered_field list \<Rightarrow> 'a list \<Rightarrow> 'a list" where
  "b_deaths_adult sx_t w = map (\<lambda>a. w ! a * (1 - sx_t ! (a + 1))) [0..<length w]"

definition b_aged :: "'a::linordered_field list \<Rightarrow> 'a list \<Rightarrow> 'a list" where
  "b_aged w da =
     map (\<lambda>a. (if a = 0 then w ! 0 else w ! (a - 1) - da ! (a - 1)) +
              (if a + 1 = length w then w ! a - da ! a else 0))
         [0..<length w]"

definition b_births :: "'a::linordered_field \<Rightarrow> int \<Rightarrow> 'a list \<Rightarrow> 'a list \<Rightarrow> 'a list \<Rightarrow> 'a list" where
  "b_births aspan fidx fx_t w aged =
     map (\<lambda>i. 0.5 * aspan * fx_t ! i * w ! (nat fidx + i) +
              0.5 * aspan * fx_t ! i * aged ! (nat fidx + i))
         [0..<length fx_t]"

definition b_infants ::
  "'a::linordered_field \<Rightarrow> int \<Rightarrow> 'a \<Rightarrow> 'a list \<Rightarrow> 'a list \<Rightarrow> 'a list \<Rightarrow> 'a list \<Rightarrow> 'a" where
  "b_infants aspan fidx r sx_t fx_t gx_t prev =
     (let w = b_working prev gx_t in
      sum_list (b_births aspan fidx fx_t w (b_aged w (b_deaths_adult sx_t w))) / (1 + r))"

definition b_deaths ::
  "'a::linordered_field \<Rightarrow> int \<Rightarrow> 'a \<Rightarrow> 'a list \<Rightarrow> 'a list \<Rightarrow> 'a list \<Rightarrow> 'a list \<Rightarrow> 'a list" where
  "b_deaths aspan fidx r sx_t fx_t gx_t prev =
     (b_infants aspan fidx r sx_t fx_t gx_t prev * (1 - sx_t ! 0)) #
     b_deaths_adult sx_t (b_working prev gx_t)"

definition b_population ::
  "'a::linordered_field \<Rightarrow> int \<Rightarrow> 'a \<Rightarrow> 'a list \<Rightarrow> 'a list \<Rightarrow> 'a list \<Rightarrow> 'a list \<Rightarrow> 'a list" where
  "b_population aspan fidx r sx_t fx_t gx_t prev =
     (let w = b_working prev gx_t;
          aged = b_aged w (b_deaths_adult sx_t w);
          inf = b_infants aspan fidx r sx_t fx_t gx_t prev in
      map (\<lambda>a. (if a = 0 then inf - inf * (1 - sx_t ! 0) else aged ! a) +
               0.5 * b_migrations prev gx_t ! a)
          [0..<length prev])"

text \<open>The container after step \<open>k\<close>, when the step runs.\<close>

definition step_result :: "'a::linordered_field PopulationProjection \<Rightarrow> nat \<Rightarrow> 'a PopulationProjection" where
  "step_result P k =
     (let prev = columns (population P) ! k;
          sx_t = columns (sx P) ! k;
          fx_t = columns (fx P) ! k;
          gx_t = columns (gx P) ! k;
          r = srb P ! k;
          w = b_working prev gx_t
      in P\<lparr>population := (population P)\<lparr>columns := (columns (population P))
                 [k + 1 := b_population (age_span P) (fx_idx P) r sx_t fx_t gx_t prev]\<rparr>,
            deaths := (deaths P)\<lparr>columns := (columns (deaths P))
                 [k := b_deaths (age_span P) (fx_idx P) r sx_t fx_t gx_t prev]\<rparr>,
            births := (births P)\<lparr>columns := (columns (births P))
                 [k := b_births (age_span P) (fx_idx P) fx_t w (b_aged w (b_deaths_adult sx_t w))]\<rparr>,
            infants := (infants P)[k := b_infants (age_span P) (fx_idx P) r sx_t fx_t gx_t prev],
            migrations := (migrations P)\<lparr>columns := (columns (migrations P))
                 [k := b_migrations prev gx_t]\<rparr>\<rparr>)"

text \<open>Two containers with the same scalars and the same parameter tables.\<close>

definition same_parameters :: "'a PopulationProjection \<Rightarrow> 'a PopulationProjection \<Rightarrow> bool" where
  "same_parameters P Q \<longleftrightarrow>
     n_ages P = n_ages Q \<and> n_steps P = n_steps Q \<and> n_fx P = n_fx Q \<and> fx_idx P = fx_idx Q \<and>
     age_span P = age_span Q \<and> sx P = sx Q \<and> fx P = fx Q \<and> gx P = gx Q \<and> srb P = srb Q"

text \<open>The conditions under which step \<open>k\<close> runs on a container of consistent shapes.\<close>

definition step_ready :: "'a::linordered_field PopulationProjection \<Rightarrow> nat \<Rightarrow> bool" where
  "step_ready P k \<longleftrightarrow>
     k < n_steps P \<and> 1 \<le> n_ages P \<and> 0 \<le> fx_idx P \<and>
     fx_idx P + int (n_fx P) \<le> int (n_ages P) \<and> 1 + srb P ! k \<noteq> 0"

text \<open>Step \<open>k\<close> of a container recorded no births and no entrants at age 0 but migrants.\<close>

definition no_births_at :: "'a::linordered_field PopulationProjection \<Rightarrow> nat \<Rightarrow> bool" where
  "no_births_at P k \<longleftrightarrow>
     list_all (\<lambda>b. b = 0) (columns (births P) ! k) \<and> infants P ! k = 0 \<and>
     columns (deaths P) ! k ! 0 = 0 \<and>
     columns (population P) ! (k + 1) ! 0 = 0.5 * columns (migrations P) ! k ! 0"

subsection \<open>Example containers\<close>

text \<open>
  Two age groups, one step, the older group fertile from index 1, half of every group
  surviving, and the migration column \<open>g\<close>.
\<close>

definition demo_projection :: "rat list \<Rightarrow> rat PopulationProjection" where
  "demo_projection g =
     \<lparr>n_ages = 2, n_steps = 1, n_fx = 1, fx_idx = 1, age_span = 1,
      sx = \<lparr>nrows = 3, columns = [[1 / 2, 1 / 2, 1 / 2]]\<rparr>,
      fx = \<lparr>nrows = 1, columns = [[1]]\<rparr>,
      gx = \<lparr>nrows = 2, columns = [g]\<rparr>,
      srb = [0],
      population = \<lparr>nrows = 2, columns = [[4, 8], [0, 0]]\<rparr>,
      deaths = \<lparr>nrows = 3, columns = [[0, 0, 0]]\<rparr>,
      births = \<lparr>nrows = 1, columns = [[0]]\<rparr>,
      infants = [0],
      migrations = \<lparr>nrows = 2, columns = [[0, 0]]\<rparr>\<rparr>"

text \<open>A single age group of 100, full survival, no fertile group, no migration.\<close>

definition single_age_projection :: "rat PopulationProjection" where
  "single_age_projection =
     \<lparr>n_ages = 1, n_steps = 1, n_fx = 0, fx_idx = 1, age_span = 1,
      sx = \<lparr>nrows = 2, columns = [[1, 1]]\<rparr>,
      fx = \<lparr>nrows = 0, columns = [[]]\<rparr>,
      gx = \<lparr>nrows = 1, columns = [[0]]\<rparr>,
      srb = [0],
      population = \<lparr>nrows = 1, columns = [[100], [0]]\<rparr>,
      deaths = \<lparr>nrows = 2, columns = [[0, 0]]\<rparr>,
      births = \<lparr>nrows = 0, columns = [[]]\<rparr>,
      infants = [0],
      migrations = \<lparr>nrows = 1, columns = [[0]]\<rparr>\<rparr>"

text \<open>The same inputs for step 0 in a container whose output storage holds other values.\<close>

definition demo_other_storage :: "rat list \<Rightarrow> rat PopulationProjection" where
  "demo_other_storage g =
     (demo_projection g)
       \<lparr>population := \<lparr>nrows = 2, columns = [[4, 8], [9, 9]]\<rparr>,
        deaths := \<lparr>nrows = 3, columns = [[1, 2, 3]]\<rparr>,
        infants := [5]\<rparr>"

text \<open>Two age groups and two steps with fertility zero, as the constructor leaves them.\<close>

definition zero_fertility_start :: "rat PopulationProjection" where
  "zero_fertility_start =
     \<lparr>n_ages = 2, n_steps = 2, n_fx = 1, fx_idx = 1, age_span = 1,
      sx = \<lparr>nrows = 3, columns = [[1 / 2, 1 / 2, 1 / 2], [1, 1 / 2, 1 / 4]]\<rparr>,
      fx = \<lparr>nrows = 1, columns = [[0], [0]]\<rparr>,
      gx = \<lparr>nrows = 2, columns = [[1 / 2, 1 / 4], [0, 1]]\<rparr>,
      srb = [0, 1],
      population = \<lparr>nrows = 2, columns = [[4, 8], [0, 0], [0, 0]]\<rparr>,
      deaths = \<lparr>nrows = 3, columns = [[0, 0, 0], [0, 0, 0]]\<rparr>,
      births = \<lparr>nrows = 1, columns = [[0], [0]]\<rparr>,
      infants = [0, 0],
      migrations = \<lparr>nrows = 2, columns = [[0, 0], [0, 0]]\<rparr>\<rparr>"

section \<open>Properties\<close>

subsection \<open>Sequencing and array primitives\<close>

lemma ebind_Inr [simp]: "ebind (Inr x) f = f x"
  by (simp add: ebind_def)

lemma ebind_Inl [simp]: "ebind (Inl e) f = Inl e"
  by (simp add: ebind_def)

lemma ebind_eq_Inr: "ebind r f = Inr y \<longleftrightarrow> (\<exists>x. r = Inr x \<and> f x = Inr y)"
  by (cases r) simp_all

lemma for_loop_append:
  "for_loop (xs @ ys) body s = ebind (for_loop xs body s) (for_loop ys body)"
  by (induction xs arbitrary: s) (simp_all add: ebind_def split: sum.splits)

lemma nth_assign_segment:
  assumes "a + length ys \<le> length xs" "i < length xs"
  shows "(take a xs @ ys @ drop (a + length ys) xs) ! i =
           (if a \<le> i \<and> i < a + length ys then ys ! (i - a) else xs ! i)"
  using assms by (auto simp: nth_append min_def)

lemma add_to_segment_nat:
  assumes "a + length ys \<le> length xs"
  shows "add_to_segment xs (int a) (int (length ys)) ys =
           Inr (map (\<lambda>i. if a \<le> i \<and> i < a + length ys then xs ! i + ys ! (i - a) else xs ! i)
                  [0..<length xs])"
proof -
  let ?new = "map2 (+) (take (length ys) (drop a xs)) ys"
  have len: "length ?new = length ys"
    using assms by simp
  have "add_to_segment xs (int a) (int (length ys)) ys =
          Inr (take a xs @ ?new @ drop (a + length ys) xs)"
    using assms by (simp add: add_to_segment_def segment_def cw_binop_def assign_segment_def nat_add_distrib)
  moreover have "take a xs @ ?new @ drop (a + length ys) xs =
      map (\<lambda>i. if a \<le> i \<and> i < a + length ys then xs ! i + ys ! (i - a) else xs ! i) [0..<length xs]"
  proof (rule nth_equalityI)
    show "length (take a xs @ ?new @ drop (a + length ys) xs) = length (map (\<lambda>i. if a \<le> i \<and> i < a + length ys then xs ! i + ys ! (i - a) else xs ! i) [0..<length xs])"
      using assms by simp
  next
    fix i assume "i < length (take a xs @ ?new @ drop (a + length ys) xs)"
    then have i: "i < length xs" using assms by simp
    have "(take a xs @ ?new @ drop (a + length ys) xs) ! i =
            (if a \<le> i \<and> i < a + length ?new then ?new ! (i - a) else xs ! i)"
      using nth_assign_segment [of a ?new xs i] assms i len by simp
    then show "(take a xs @ ?new @ drop (a + length ys) xs) ! i =
        map (\<lambda>i. if a \<le> i \<and> i < a + length ys then xs ! i + ys ! (i - a) else xs ! i) [0..<length xs] ! i"
      using i assms len by (auto simp: add.commute)
  qed
  ultimately show ?thesis by simp
qed

subsection \<open>One step in closed form\<close>

lemma aging_step:
  assumes "0 < m" "m < length pop" "m < length d"
  shows "aging d m pop = Inr (pop[m := pop ! (m - 1) - d ! m])"
  using assms by (simp add: aging_def coeff_at_def set_coeff_def nat_diff_distrib')

lemma aging_loop:
  assumes "m \<le> length pop" "length pop \<le> length d"
  shows "for_loop (rev [1..<m]) (aging d) pop =
           Inr (map (\<lambda>a. if 1 \<le> a \<and> a < m then pop ! (a - 1) - d ! a else pop ! a) [0..<length pop])"
  using assms
proof (induction m arbitrary: pop)
  case 0
  then show ?case by (simp add: map_nth)
next
  case (Suc m)
  show ?case
  proof (cases "m = 0")
    case True
    then show ?thesis by (auto intro!: nth_equalityI)
  next
    case False
    let ?pop = "pop[m := pop ! (m - 1) - d ! m]"
    have r: "rev [1..<Suc m] = m # rev [1..<m]"
      using False by simp
    have st: "aging d m pop = Inr ?pop"
      using False Suc.prems by (intro aging_step) auto
    have ih: "for_loop (rev [1..<m]) (aging d) ?pop =
        Inr (map (\<lambda>a. if 1 \<le> a \<and> a < m then ?pop ! (a - 1) - d ! a else ?pop ! a) [0..<length ?pop])"
      using Suc.prems by (intro Suc.IH) auto
    have "map (\<lambda>a. if 1 \<le> a \<and> a < m then ?pop ! (a - 1) - d ! a else ?pop ! a) [0..<length ?pop] =
          map (\<lambda>a. if 1 \<le> a \<and> a < Suc m then pop ! (a - 1) - d ! a else pop ! a) [0..<length pop]"
      using Suc.prems False by (auto simp: nth_list_update)
    then show ?thesis
      unfolding r using st ih by simp
  qed
qed


lemma step_body_closed:
  fixes prev :: "'a::linordered_field list"
  assumes len: "length prev = n" "length gx_t = n" "length sx_t = n + 1" "length fx_t = nfx"
      "length population_t = n" "length migrations_t = n" "length deaths_t = n + 1"
      "length births_t = nfx"
    and n: "1 \<le> n" and f: "0 \<le> fidx" "fidx + int nfx \<le> int n"
    and k: "k < length srb_v" and r: "1 + srb_v ! k \<noteq> 0"
  shows "step_body n nfx fidx aspan srb_v k sx_t fx_t gx_t prev
           population_t migrations_t deaths_t births_t =
         Inr (b_population aspan fidx (srb_v ! k) sx_t fx_t gx_t prev,
              b_migrations prev gx_t,
              b_deaths aspan fidx (srb_v ! k) sx_t fx_t gx_t prev,
              b_infants aspan fidx (srb_v ! k) sx_t fx_t gx_t prev,
              b_births aspan fidx fx_t (b_working prev gx_t)
                (b_aged (b_working prev gx_t) (b_deaths_adult sx_t (b_working prev gx_t))))"
proof -
  let ?mig = "b_migrations prev gx_t"
  let ?w = "b_working prev gx_t"
  let ?da = "b_deaths_adult sx_t ?w"
  let ?D1 = "take 1 deaths_t @ ?da"
  let ?aged = "b_aged ?w ?da"
  let ?b1 = "map (\<lambda>i. 0.5 * aspan * fx_t ! i * ?w ! (nat fidx + i)) [0..<nfx]"
  let ?births = "b_births aspan fidx fx_t ?w ?aged"
  let ?inf = "b_infants aspan fidx (srb_v ! k) sx_t fx_t gx_t prev"
  let ?loop = "map (\<lambda>a. if 1 \<le> a \<and> a < n then ?w ! (a - 1) - ?D1 ! a else ?w ! a) [0..<n]"
  have lmig: "length ?mig = n" and lw: "length ?w = n" and lda: "length ?da = n"
    and laged: "length ?aged = n"
    using len by (simp_all add: b_migrations_def b_working_def b_deaths_adult_def b_aged_def)
  have fn: "nat fidx + nfx \<le> n" using f by linarith
  have s1: "assign_fixed population_t prev = Inr prev"
    using len by (simp add: assign_fixed_def)
  have s2: "cw_binop (*) prev gx_t = Inr ?mig"
    using len by (simp add: cw_binop_def b_migrations_def)
  have s3: "assign_fixed migrations_t ?mig = Inr ?mig"
    using len lmig by (simp add: assign_fixed_def)
  have s4: "cw_binop (+) prev (map ((*) 0.5) ?mig) = Inr ?w"
    using len lmig by (simp add: cw_binop_def b_working_def)
  have s5: "segment sx_t 1 (int n) = Inr (drop 1 sx_t)"
    using len by (simp add: segment_def)
  have s6: "cw_binop (*) ?w (map ((-) 1) (drop 1 sx_t)) = Inr ?da"
  proof -
    have "map2 (*) ?w (map ((-) 1) (drop 1 sx_t)) = ?da"
      using len lw by (intro nth_equalityI) (simp_all add: b_deaths_adult_def)
    then show ?thesis using len lw by (simp add: cw_binop_def)
  qed
  have s7: "assign_segment deaths_t 1 (int n) ?da = Inr ?D1"
    using len lda by (simp add: assign_segment_def)
  have D1: "length ?D1 = n + 1" "\<And>a. 1 \<le> a \<Longrightarrow> a \<le> n \<Longrightarrow> ?D1 ! a = ?da ! (a - 1)"
    using len lda by (simp_all add: nth_append)
  have s8: "segment ?w fidx (int nfx) = Inr (take nfx (drop (nat fidx) ?w))"
    using f lw by (simp add: segment_def)
  have s9: "cw_binop (*) (map ((*) (0.5 * aspan)) fx_t) (take nfx (drop (nat fidx) ?w)) = Inr ?b1"
  proof -
    have "map2 (*) (map ((*) (0.5 * aspan)) fx_t) (take nfx (drop (nat fidx) ?w)) = ?b1"
      using len lw fn by (intro nth_equalityI) simp_all
    then show ?thesis using len lw fn by (simp add: cw_binop_def)
  qed
  have s10: "assign_fixed births_t ?b1 = Inr ?b1"
    using len by (simp add: assign_fixed_def)
  have s11: "coeff_at ?w (int n - 1) = Inr (?w ! (n - 1))"
    using n lw by (simp add: coeff_at_def nat_diff_distrib')
  have s12: "coeff_at ?D1 (int n) = Inr (?da ! (n - 1))"
    using n D1 by (simp add: coeff_at_def)
  have s13: "for_loop (rev [1..<n]) (aging ?D1) ?w = Inr ?loop"
    using aging_loop [of n ?w ?D1] lw D1(1) by simp
  have lloop: "length ?loop = n" by simp
  have s14: "coeff_at ?loop (int n - 1) = Inr (?loop ! (n - 1))"
    using n by (simp add: coeff_at_def nat_diff_distrib')
  have s15: "set_coeff ?loop (int n - 1) (?loop ! (n - 1) + (?w ! (n - 1) - ?da ! (n - 1))) = Inr ?aged"
  proof -
    have "?loop[n - 1 := ?loop ! (n - 1) + (?w ! (n - 1) - ?da ! (n - 1))] = ?aged"
    proof (rule nth_equalityI)
      show "length (?loop[n - 1 := ?loop ! (n - 1) + (?w ! (n - 1) - ?da ! (n - 1))]) = length ?aged"
        using laged by simp
    next
      fix a assume "a < length (?loop[n - 1 := ?loop ! (n - 1) + (?w ! (n - 1) - ?da ! (n - 1))])"
      then have a: "a < n" by simp
      show "?loop[n - 1 := ?loop ! (n - 1) + (?w ! (n - 1) - ?da ! (n - 1))] ! a = ?aged ! a"
      proof (cases "a = 0")
        case True
        then show ?thesis using a n lw by (auto simp: b_aged_def nth_list_update)
      next
        case False
        then have "?D1 ! a = ?da ! (a - 1)" using D1(2) [of a] a by simp
        then show ?thesis using a n lw False by (auto simp: b_aged_def nth_list_update)
      qed
    qed
    then show ?thesis using n by (simp add: set_coeff_def nat_diff_distrib')
  qed
  have s16: "segment ?aged fidx (int nfx) = Inr (take nfx (drop (nat fidx) ?aged))"
    using f laged by (simp add: segment_def)
  let ?b2 = "map (\<lambda>i. 0.5 * aspan * fx_t ! i * ?aged ! (nat fidx + i)) [0..<nfx]"
  have s17: "cw_binop (*) (map ((*) (0.5 * aspan)) fx_t) (take nfx (drop (nat fidx) ?aged)) = Inr ?b2"
  proof -
    have "map2 (*) (map ((*) (0.5 * aspan)) fx_t) (take nfx (drop (nat fidx) ?aged)) = ?b2"
      using len laged fn by (intro nth_equalityI) simp_all
    then show ?thesis using len laged fn by (simp add: cw_binop_def)
  qed
  have s18: "cw_binop (+) ?b1 ?b2 = Inr ?births"
  proof -
    have "map2 (+) ?b1 ?b2 = ?births"
      using len by (intro nth_equalityI) (simp_all add: b_births_def)
    then show ?thesis by (simp add: cw_binop_def)
  qed
  have s19: "coeff_at srb_v (int k) = Inr (srb_v ! k)"
    using k by (simp add: coeff_at_def)
  have s20: "divide_checked (sum_list ?births) (1 + srb_v ! k) = Inr ?inf"
    using r by (simp add: divide_checked_def b_infants_def Let_def)
  have s21: "coeff_at sx_t 0 = Inr (sx_t ! 0)"
    using len by (simp add: coeff_at_def)
  let ?D2 = "b_deaths aspan fidx (srb_v ! k) sx_t fx_t gx_t prev"
  have s22: "set_coeff ?D1 0 (?inf * (1 - sx_t ! 0)) = Inr ?D2"
  proof -
    have "deaths_t \<noteq> []" using len by auto
    then have "take 1 deaths_t = [hd deaths_t]" by (cases deaths_t) simp_all
    then show ?thesis by (simp add: set_coeff_def b_deaths_def)
  qed
  have s23: "coeff_at ?D2 0 = Inr (?inf * (1 - sx_t ! 0))"
    by (simp add: coeff_at_def b_deaths_def)
  let ?p0 = "?aged[0 := ?inf - ?inf * (1 - sx_t ! 0)]"
  have s24: "set_coeff ?aged 0 (?inf - ?inf * (1 - sx_t ! 0)) = Inr ?p0"
    using n laged by (simp add: set_coeff_def)
  have s25: "cw_binop (+) ?p0 (map ((*) 0.5) ?mig) =
               Inr (b_population aspan fidx (srb_v ! k) sx_t fx_t gx_t prev)"
  proof -
    have "map2 (+) ?p0 (map ((*) 0.5) ?mig) = b_population aspan fidx (srb_v ! k) sx_t fx_t gx_t prev"
      using len laged lmig
      by (intro nth_equalityI) (auto simp: b_population_def Let_def nth_list_update)
    then show ?thesis using laged lmig by (simp add: cw_binop_def)
  qed
  show ?thesis
    unfolding step_body_def
    by (simp only: s1 s2 s3 s4 s5 s6 s7 s8 s9 s10 s11 s12 s13 s14 s15 s16 s17 s18 s19 s20
        s21 s22 s23 s24 s25 ebind_Inr Let_def)
qed

lemma matrix_ok_nth: "matrix_ok m r c \<Longrightarrow> j < c \<Longrightarrow> length (columns m ! j) = r"
  by (simp add: matrix_ok_def list_all_length)

lemma col_ok: "matrix_ok m r c \<Longrightarrow> j < c \<Longrightarrow> col m j = Inr (columns m ! j)"
  by (simp add: col_def matrix_ok_def)

lemma map_from_col_ok:
  assumes "matrix_ok m r c" "j < c"
  shows "map_from_col m j (int r) = Inr (columns m ! j)"
proof -
  have j: "j < length (columns m)" using assms by (simp add: matrix_ok_def)
  have l: "length (columns m ! j) = r" using assms by (rule matrix_ok_nth)
  have "drop j (columns m) = columns m ! j # drop (Suc j) (columns m)"
    using j by (simp add: Cons_nth_drop_Suc)
  then have c: "concat (drop j (columns m)) = columns m ! j @ concat (drop (Suc j) (columns m))"
    by simp
  show ?thesis
    using j l by (simp add: map_from_col_def c)
qed

lemma set_col_ok:
  "matrix_ok m r c \<Longrightarrow> j < c \<Longrightarrow> length v = r \<Longrightarrow>
     set_col m j v = Inr (m\<lparr>columns := (columns m)[j := v]\<rparr>)"
  by (simp add: set_col_def matrix_ok_def)

lemma matrix_ok_update:
  "matrix_ok m r c \<Longrightarrow> length v = r \<Longrightarrow> matrix_ok (m\<lparr>columns := (columns m)[j := v]\<rparr>) r c"
  by (auto simp: matrix_ok_def list_all_iff dest: set_update_subset_insert [THEN subsetD])

lemma b_lengths:
  "length (b_migrations prev gx_t) = min (length prev) (length gx_t)"
  "length (b_deaths_adult sx_t w) = length w"
  "length (b_aged w da) = length w"
  "length (b_births aspan fidx fx_t w aged) = length fx_t"
  "length (b_deaths aspan fidx r sx_t fx_t gx_t prev) = Suc (min (length prev) (length gx_t))"
  "length (b_population aspan fidx r sx_t fx_t gx_t prev) = length prev"
  by (simp_all add: b_migrations_def b_working_def b_deaths_adult_def b_aged_def b_births_def
      b_deaths_def b_population_def Let_def)

lemma step_projection_closed:
  assumes ok: "shapes_ok P" and rdy: "step_ready P k"
  shows "step_projection P k = Inr (step_result P k)"
proof -
  let ?prev = "columns (population P) ! k"
  let ?sx = "columns (sx P) ! k"
  let ?fx = "columns (fx P) ! k"
  let ?gx = "columns (gx P) ! k"
  have k: "k < n_steps P" using rdy by (simp add: step_ready_def)
  have m: "matrix_ok (sx P) (n_ages P + 1) (n_steps P)" "matrix_ok (fx P) (n_fx P) (n_steps P)"
    "matrix_ok (gx P) (n_ages P) (n_steps P)" "matrix_ok (population P) (n_ages P) (n_steps P + 1)"
    "matrix_ok (deaths P) (n_ages P + 1) (n_steps P)" "matrix_ok (births P) (n_fx P) (n_steps P)"
    "matrix_ok (migrations P) (n_ages P) (n_steps P)"
    and l: "length (srb P) = n_steps P" "length (infants P) = n_steps P"
    using ok by (simp_all add: shapes_ok_def)
  have v1: "map_from_col (sx P) k (int (n_ages P) + 1) = Inr ?sx"
    using map_from_col_ok [OF m(1) k] by (simp add: add.commute)
  have nfx: "nrows (fx P) = n_fx P" using m(2) by (simp add: matrix_ok_def)
  have v2: "map_from_col (fx P) k (int (nrows (fx P))) = Inr ?fx"
    using map_from_col_ok [OF m(2) k] nfx by simp
  have v3: "map_from_col (gx P) k (int (n_ages P)) = Inr ?gx"
    using map_from_col_ok [OF m(3) k] by simp
  have v4: "col (population P) (k + 1) = Inr (columns (population P) ! (k + 1))"
    using col_ok [OF m(4), of "k + 1"] k by simp
  have v5: "col (migrations P) k = Inr (columns (migrations P) ! k)"
    using col_ok [OF m(7) k] .
  have v6: "col (deaths P) k = Inr (columns (deaths P) ! k)"
    using col_ok [OF m(5) k] .
  have v7: "col (births P) k = Inr (columns (births P) ! k)"
    using col_ok [OF m(6) k] .
  have v8: "coeff_at (infants P) (int k) = Inr (infants P ! k)"
    using k l by (simp add: coeff_at_def)
  have v9: "col (population P) k = Inr ?prev"
    using col_ok [OF m(4), of k] k by simp
  have lens: "length ?prev = n_ages P" "length ?gx = n_ages P" "length ?sx = n_ages P + 1"
    "length ?fx = n_fx P" "length (columns (population P) ! (k + 1)) = n_ages P"
    "length (columns (migrations P) ! k) = n_ages P" "length (columns (deaths P) ! k) = n_ages P + 1"
    "length (columns (births P) ! k) = n_fx P"
    using m k by (simp_all add: matrix_ok_nth)
  have body: "step_body (n_ages P) (n_fx P) (fx_idx P) (age_span P) (srb P) k ?sx ?fx ?gx ?prev
      (columns (population P) ! (k + 1)) (columns (migrations P) ! k) (columns (deaths P) ! k)
      (columns (births P) ! k) =
    Inr (b_population (age_span P) (fx_idx P) (srb P ! k) ?sx ?fx ?gx ?prev,
         b_migrations ?prev ?gx,
         b_deaths (age_span P) (fx_idx P) (srb P ! k) ?sx ?fx ?gx ?prev,
         b_infants (age_span P) (fx_idx P) (srb P ! k) ?sx ?fx ?gx ?prev,
         b_births (age_span P) (fx_idx P) ?fx (b_working ?prev ?gx)
           (b_aged (b_working ?prev ?gx) (b_deaths_adult ?sx (b_working ?prev ?gx))))"
    using rdy l by (intro step_body_closed lens) (simp_all add: step_ready_def)
  have w1: "set_col (population P) (k + 1) (b_population (age_span P) (fx_idx P) (srb P ! k) ?sx ?fx ?gx ?prev)
      = Inr ((population P)\<lparr>columns := (columns (population P))[k + 1 := b_population (age_span P) (fx_idx P) (srb P ! k) ?sx ?fx ?gx ?prev]\<rparr>)"
    using k lens by (intro set_col_ok [OF m(4)]) (simp_all add: b_lengths)
  have w2: "set_col (migrations P) k (b_migrations ?prev ?gx)
      = Inr ((migrations P)\<lparr>columns := (columns (migrations P))[k := b_migrations ?prev ?gx]\<rparr>)"
    using k lens by (intro set_col_ok [OF m(7)]) (simp_all add: b_lengths)
  have w3: "set_col (deaths P) k (b_deaths (age_span P) (fx_idx P) (srb P ! k) ?sx ?fx ?gx ?prev)
      = Inr ((deaths P)\<lparr>columns := (columns (deaths P))[k := b_deaths (age_span P) (fx_idx P) (srb P ! k) ?sx ?fx ?gx ?prev]\<rparr>)"
    using k lens by (intro set_col_ok [OF m(5)]) (simp_all add: b_lengths)
  have w4: "set_col (births P) k (b_births (age_span P) (fx_idx P) ?fx (b_working ?prev ?gx)
           (b_aged (b_working ?prev ?gx) (b_deaths_adult ?sx (b_working ?prev ?gx))))
      = Inr ((births P)\<lparr>columns := (columns (births P))[k := b_births (age_span P) (fx_idx P) ?fx (b_working ?prev ?gx)
           (b_aged (b_working ?prev ?gx) (b_deaths_adult ?sx (b_working ?prev ?gx)))]\<rparr>)"
    using k lens by (intro set_col_ok [OF m(6)]) (simp_all add: b_lengths)
  show ?thesis
    unfolding step_projection_def step_result_def
    by (simp only: v1 v2 v3 v4 v5 v6 v7 v8 v9 body w1 w2 w3 w4 ebind_Inr Let_def prod.case)
qed

lemma coeff_at_eq_Inr:
  "coeff_at xs i = Inr v \<longleftrightarrow> 0 \<le> i \<and> i < int (length xs) \<and> v = xs ! nat i"
  by (auto simp: coeff_at_def)

lemma set_coeff_eq_Inr:
  "set_coeff xs i v = Inr ys \<longleftrightarrow> 0 \<le> i \<and> i < int (length xs) \<and> ys = xs[nat i := v]"
  by (auto simp: set_coeff_def)

lemma segment_eq_Inr:
  "segment xs a n = Inr ys \<longleftrightarrow>
     0 \<le> a \<and> 0 \<le> n \<and> a + n \<le> int (length xs) \<and> ys = take (nat n) (drop (nat a) xs)"
  by (auto simp: segment_def)

lemma cw_binop_eq_Inr:
  "cw_binop f xs ys = Inr zs \<longleftrightarrow> length xs = length ys \<and> zs = map2 f xs ys"
  by (auto simp: cw_binop_def)

lemma assign_fixed_eq_Inr:
  "assign_fixed dst src = Inr zs \<longleftrightarrow> length src = length dst \<and> zs = src"
  by (auto simp: assign_fixed_def)

lemma divide_checked_eq_Inr:
  "divide_checked a b = Inr c \<longleftrightarrow> b \<noteq> 0 \<and> c = a / b"
  by (auto simp: divide_checked_def)

lemma col_eq_Inr: "col m j = Inr v \<longleftrightarrow> j < length (columns m) \<and> v = columns m ! j"
  by (auto simp: col_def)

lemma map_from_col_InrD: "map_from_col m j n = Inr v \<Longrightarrow> j < length (columns m)"
  by (auto simp: map_from_col_def split: if_splits)

lemma step_body_InrD:
  fixes prev :: "'a::linordered_field list"
  assumes "step_body n nfx fidx aspan srb_v k sx_t fx_t gx_t prev
             population_t migrations_t deaths_t births_t = Inr res"
  shows "1 \<le> n \<and> 0 \<le> fidx \<and> fidx + int nfx \<le> int n \<and> k < length srb_v \<and> 1 + srb_v ! k \<noteq> 0"
proof -
  from assms obtain p1 mg p2 sx_seg ds pop_seg p_open r it where
      a: "assign_fixed population_t prev = Inr p1"
      and b: "cw_binop (*) p1 gx_t = Inr mg"
      and c: "cw_binop (+) p1 (map ((*) 0.5) mg) = Inr p2"
      and d: "segment sx_t 1 (int n) = Inr sx_seg"
      and e: "cw_binop (*) p2 (map ((-) 1) sx_seg) = Inr ds"
      and f: "segment p2 fidx (int nfx) = Inr pop_seg"
      and g: "coeff_at p2 (int n - 1) = Inr p_open"
      and h: "coeff_at srb_v (int k) = Inr r"
      and i: "divide_checked it (1 + r) = Inr (fst (snd (snd (snd res))))"
    unfolding step_body_def Let_def ebind_eq_Inr assign_fixed_eq_Inr
    by (auto simp: divide_checked_eq_Inr)
  have "length p2 = length sx_seg" using e by (simp add: cw_binop_eq_Inr)
  moreover have "length sx_seg = n" using d by (auto simp: segment_eq_Inr)
  ultimately have "length p2 = n" by simp
  then show ?thesis
    using f g h i by (auto simp: segment_eq_Inr coeff_at_eq_Inr divide_checked_eq_Inr)
qed

lemma step_projection_InrD:
  assumes "step_projection P k = Inr P'"
  shows "k < length (columns (sx P)) \<and> 1 \<le> n_ages P \<and> 0 \<le> fx_idx P \<and>
         fx_idx P + int (n_fx P) \<le> int (n_ages P) \<and> k < length (srb P) \<and> 1 + srb P ! k \<noteq> 0"
proof -
  from assms obtain sx_t fx_t gx_t prev p m d b res where
    v: "map_from_col (sx P) k (int (n_ages P) + 1) = Inr sx_t"
    and body: "step_body (n_ages P) (n_fx P) (fx_idx P) (age_span P) (srb P) k
              sx_t fx_t gx_t prev p m d b = Inr res"
    unfolding step_projection_def ebind_eq_Inr by blast
  show ?thesis
    using map_from_col_InrD [OF v] step_body_InrD [OF body] by simp
qed

lemma step_projection_Inr_iff:
  assumes "shapes_ok P"
  shows "step_projection P k = Inr P' \<longleftrightarrow> step_ready P k \<and> P' = step_result P k"
proof
  assume s: "step_projection P k = Inr P'"
  have "step_ready P k"
    using step_projection_InrD [OF s] assms by (simp add: step_ready_def shapes_ok_def)
  then show "step_ready P k \<and> P' = step_result P k"
    using step_projection_closed [OF assms] s by simp
next
  assume "step_ready P k \<and> P' = step_result P k"
  then show "step_projection P k = Inr P'"
    using step_projection_closed [OF assms] by simp
qed

lemma shapes_ok_step_result:
  assumes "shapes_ok P" "k < n_steps P"
  shows "shapes_ok (step_result P k)"
proof -
  have m: "matrix_ok (sx P) (n_ages P + 1) (n_steps P)" "matrix_ok (fx P) (n_fx P) (n_steps P)"
    "matrix_ok (gx P) (n_ages P) (n_steps P)" "matrix_ok (population P) (n_ages P) (n_steps P + 1)"
    "matrix_ok (deaths P) (n_ages P + 1) (n_steps P)" "matrix_ok (births P) (n_fx P) (n_steps P)"
    "matrix_ok (migrations P) (n_ages P) (n_steps P)"
    and l: "length (srb P) = n_steps P" "length (infants P) = n_steps P"
    using assms(1) by (simp_all add: shapes_ok_def)
  have lens: "length (columns (population P) ! k) = n_ages P" "length (columns (gx P) ! k) = n_ages P"
    "length (columns (fx P) ! k) = n_fx P"
    using m assms(2) by (simp_all add: matrix_ok_nth)
  show ?thesis
    unfolding shapes_ok_def step_result_def Let_def
    using m l lens by (simp add: b_lengths matrix_ok_update)
qed

subsection \<open>Conservation within one step\<close>

lemma sum_list_upt_conv: "sum_list (map f [0..<n]) = (\<Sum>a<n. f a)" for f :: "nat \<Rightarrow> 'a::comm_monoid_add"
  by (simp add: interv_sum_list_conv_sum_set_nat atLeast0LessThan)

lemma sum_list_nth_conv: "sum_list xs = (\<Sum>a<length xs. xs ! a)" for xs :: "'a::comm_monoid_add list"
  by (simp add: sum_list_sum_nth atLeast0LessThan)

lemma b_aged_nth:
  "a < length w \<Longrightarrow> b_aged w da ! a =
     (if a = 0 then w ! 0 else w ! (a - 1) - da ! (a - 1)) +
     (if a + 1 = length w then w ! a - da ! a else 0)"
  by (simp add: b_aged_def del: upt_Suc)

lemma sum_head:
  fixes g :: "nat \<Rightarrow> 'a::comm_monoid_add"
  shows "(\<Sum>a<Suc m. g a) = g 0 + (\<Sum>a\<in>{1..<Suc m}. g a)"
  using sum.atLeast_Suc_lessThan [of 0 "Suc m" g] by (simp add: lessThan_atLeast0)

lemma sum_aged:
  fixes w :: "'a::linordered_field list"
  assumes "length w = n" "length da = n" "2 \<le> n"
  shows "(\<Sum>a\<in>{1..<n}. b_aged w da ! a) = (\<Sum>a<n. w ! a) - (\<Sum>a<n. da ! a)"
proof -
  obtain m where n: "n = Suc m" and m: "1 \<le> m" using assms(3) by (cases n) auto
  have "(\<Sum>a\<in>{1..<n}. b_aged w da ! a) =
        (\<Sum>a\<in>{1..<n}. (w ! (a - 1) - da ! (a - 1)) + (if a = m then w ! m - da ! m else 0))"
    using assms n by (intro sum.cong) (auto simp: b_aged_nth)
  also have "\<dots> = (\<Sum>a\<in>{1..<n}. w ! (a - 1) - da ! (a - 1)) + (w ! m - da ! m)"
    using m n by (simp add: sum.distrib)
  also have "(\<Sum>a\<in>{1..<n}. w ! (a - 1) - da ! (a - 1)) = (\<Sum>a<m. w ! a - da ! a)"
    unfolding n using sum.shift_bounds_Suc_ivl [of "\<lambda>a. w ! (a - 1) - da ! (a - 1)" 0 m]
    by (simp add: atLeast0LessThan)
  finally show ?thesis
    unfolding n by (simp add: sum_subtractf)
qed

lemma step_conservation:
  fixes prev :: "'a::linordered_field list"
  assumes "length prev = n" "length gx_t = n" "2 \<le> n"
  shows "sum_list (b_population aspan fidx r sx_t fx_t gx_t prev) +
         sum_list (b_deaths aspan fidx r sx_t fx_t gx_t prev) =
         sum_list (b_working prev gx_t) + b_infants aspan fidx r sx_t fx_t gx_t prev +
         0.5 * sum_list (b_migrations prev gx_t)"
proof -
  let ?w = "b_working prev gx_t"
  let ?da = "b_deaths_adult sx_t ?w"
  let ?mig = "b_migrations prev gx_t"
  let ?inf = "b_infants aspan fidx r sx_t fx_t gx_t prev"
  let ?d0 = "?inf * (1 - sx_t ! 0)"
  have lw: "length ?w = n" and lda: "length ?da = n" and lmig: "length ?mig = n"
    using assms by (simp_all add: b_working_def b_migrations_def b_deaths_adult_def)
  obtain m where n: "n = Suc m" using assms(3) by (cases n) auto
  have "sum_list (b_population aspan fidx r sx_t fx_t gx_t prev) =
        (\<Sum>a<n. (if a = 0 then ?inf - ?d0 else b_aged ?w ?da ! a) + 0.5 * ?mig ! a)"
    using assms by (simp add: b_population_def Let_def sum_list_upt_conv)
  also have "\<dots> = (\<Sum>a<n. (if a = 0 then ?inf - ?d0 else b_aged ?w ?da ! a)) + (\<Sum>a<n. 0.5 * ?mig ! a)"
    by (simp add: sum.distrib)
  also have "(\<Sum>a<n. (if a = 0 then ?inf - ?d0 else b_aged ?w ?da ! a)) =
             (?inf - ?d0) + (\<Sum>a\<in>{1..<n}. b_aged ?w ?da ! a)"
    unfolding n sum_head by simp
  also have "(\<Sum>a\<in>{1..<n}. b_aged ?w ?da ! a) = (\<Sum>a<n. ?w ! a) - (\<Sum>a<n. ?da ! a)"
    using sum_aged [OF lw lda assms(3)] .
  finally have pop: "sum_list (b_population aspan fidx r sx_t fx_t gx_t prev) =
      (?inf - ?d0) + ((\<Sum>a<n. ?w ! a) - (\<Sum>a<n. ?da ! a)) + (\<Sum>a<n. 0.5 * ?mig ! a)" .
  have dth: "sum_list (b_deaths aspan fidx r sx_t fx_t gx_t prev) = ?d0 + (\<Sum>a<n. ?da ! a)"
    using lda by (simp add: b_deaths_def sum_list_nth_conv [of ?da])
  have "sum_list ?w = (\<Sum>a<n. ?w ! a)" "sum_list ?mig = (\<Sum>a<n. ?mig ! a)"
    using lw lmig by (simp_all add: sum_list_nth_conv)
  then show ?thesis
    unfolding pop dth by (simp add: sum_distrib_left)
qed

lemma b_working_closed:
  fixes prev :: "'a::linordered_field list"
  assumes "length gx_t = length prev" "list_all (\<lambda>g. g = 0) gx_t"
  shows "b_working prev gx_t = prev" "sum_list (b_migrations prev gx_t) = 0"
proof -
  have z: "\<And>a. a < length prev \<Longrightarrow> gx_t ! a = 0"
    using assms by (simp add: list_all_length)
  have "b_migrations prev gx_t = replicate (length prev) 0"
    using assms z by (intro nth_equalityI) (simp_all add: b_migrations_def)
  then show "sum_list (b_migrations prev gx_t) = 0" by (simp add: sum_list_replicate)
  show "b_working prev gx_t = prev"
    using assms z by (intro nth_equalityI) (simp_all add: b_working_def b_migrations_def)
qed

subsection \<open>The example containers run\<close>

lemma demo_shapes: "shapes_ok (demo_projection [g0, g1])"
  by (simp add: shapes_ok_def demo_projection_def matrix_ok_def)

lemma demo_ready: "step_ready (demo_projection [g0, g1]) 0"
  by (simp add: step_ready_def demo_projection_def)

lemma demo_step:
  "step_projection (demo_projection [g0, g1]) 0 = Inr (step_result (demo_projection [g0, g1]) 0)"
  using demo_shapes demo_ready by (rule step_projection_closed)

lemma single_age_step:
  "step_projection single_age_projection 0 = Inr (step_result single_age_projection 0)"
  by (rule step_projection_closed)
    (simp_all add: shapes_ok_def step_ready_def single_age_projection_def matrix_ok_def)

subsection \<open>Claims about one step\<close>

lemma step_result_columns:
  assumes "shapes_ok P" "k < n_steps P"
  shows "columns (population (step_result P k)) ! (k + 1) =
           b_population (age_span P) (fx_idx P) (srb P ! k) (columns (sx P) ! k) (columns (fx P) ! k)
             (columns (gx P) ! k) (columns (population P) ! k)"
    and "columns (deaths (step_result P k)) ! k =
           b_deaths (age_span P) (fx_idx P) (srb P ! k) (columns (sx P) ! k) (columns (fx P) ! k)
             (columns (gx P) ! k) (columns (population P) ! k)"
    and "columns (births (step_result P k)) ! k =
           b_births (age_span P) (fx_idx P) (columns (fx P) ! k)
             (b_working (columns (population P) ! k) (columns (gx P) ! k))
             (b_aged (b_working (columns (population P) ! k) (columns (gx P) ! k))
                (b_deaths_adult (columns (sx P) ! k)
                   (b_working (columns (population P) ! k) (columns (gx P) ! k))))"
    and "infants (step_result P k) ! k =
           b_infants (age_span P) (fx_idx P) (srb P ! k) (columns (sx P) ! k) (columns (fx P) ! k)
             (columns (gx P) ! k) (columns (population P) ! k)"
    and "columns (migrations (step_result P k)) ! k =
           b_migrations (columns (population P) ! k) (columns (gx P) ! k)"
  using assms by (simp_all add: step_result_def Let_def shapes_ok_def matrix_ok_def)

lemma step_result_frame:
  "sx (step_result P k) = sx P" "fx (step_result P k) = fx P" "gx (step_result P k) = gx P"
  "srb (step_result P k) = srb P" "n_ages (step_result P k) = n_ages P"
  "n_steps (step_result P k) = n_steps P" "n_fx (step_result P k) = n_fx P"
  "fx_idx (step_result P k) = fx_idx P" "age_span (step_result P k) = age_span P"
  "j \<noteq> k + 1 \<Longrightarrow> columns (population (step_result P k)) ! j = columns (population P) ! j"
  "j \<noteq> k \<Longrightarrow> columns (deaths (step_result P k)) ! j = columns (deaths P) ! j"
  "j \<noteq> k \<Longrightarrow> columns (births (step_result P k)) ! j = columns (births P) ! j"
  "j \<noteq> k \<Longrightarrow> columns (migrations (step_result P k)) ! j = columns (migrations P) ! j"
  "j \<noteq> k \<Longrightarrow> infants (step_result P k) ! j = infants P ! j"
  by (simp_all add: step_result_def Let_def)

lemma step_lengths:
  assumes "shapes_ok P" "k < n_steps P"
  shows "length (columns (population P) ! k) = n_ages P" "length (columns (gx P) ! k) = n_ages P"
    "length (columns (sx P) ! k) = n_ages P + 1" "length (columns (fx P) ! k) = n_fx P"
  using assms by (simp_all add: shapes_ok_def matrix_ok_def list_all_length)

text \<open>
  C2, as amended. With at least two age groups and no migration in step \<open>k\<close>, a step that
  runs conserves people: the new population column and the step's deaths (indices
  \<open>0..n_ages\<close>) add up to the previous population column plus the infants of the step.
\<close>

theorem closed_population_conservation:
  fixes P :: "'a::linordered_field PopulationProjection"
  assumes "shapes_ok P" and "step_projection P k = Inr P'" and "2 \<le> n_ages P"
    and "list_all (\<lambda>g. g = 0) (columns (gx P) ! k)"
  shows "sum_list (columns (population P') ! (k + 1)) + sum_list (columns (deaths P') ! k) =
         sum_list (columns (population P) ! k) + infants P' ! k"
proof -
  have r: "step_ready P k" and P': "P' = step_result P k"
    using assms(1,2) by (simp_all add: step_projection_Inr_iff)
  have k: "k < n_steps P" using r by (simp add: step_ready_def)
  note l = step_lengths [OF assms(1) k]
  have w: "b_working (columns (population P) ! k) (columns (gx P) ! k) = columns (population P) ! k"
    and m: "sum_list (b_migrations (columns (population P) ! k) (columns (gx P) ! k)) = 0"
    using b_working_closed [of "columns (gx P) ! k" "columns (population P) ! k"] l assms(4)
    by simp_all
  show ?thesis
    unfolding P' step_result_columns [OF assms(1) k]
    using step_conservation [OF l(1) l(2) assms(3), of "age_span P" "fx_idx P" "srb P ! k"
        "columns (sx P) ! k" "columns (fx P) ! k"]
    by (simp add: w m)
qed

theorem closed_population_conservation_witness:
  "shapes_ok (demo_projection [0, 0]) \<and>
   step_projection (demo_projection [0, 0]) 0 = Inr (step_result (demo_projection [0, 0]) 0) \<and>
   2 \<le> n_ages (demo_projection [0, 0]) \<and>
   list_all (\<lambda>g. g = 0) (columns (gx (demo_projection [0, 0])) ! 0) \<and>
   sum_list (columns (population (step_result (demo_projection [0, 0]) 0)) ! (0 + 1)) +
     sum_list (columns (deaths (step_result (demo_projection [0, 0]) 0)) ! 0) =
   sum_list (columns (population (demo_projection [0, 0])) ! 0) +
     infants (step_result (demo_projection [0, 0]) 0) ! 0"
proof -
  have h3: "2 \<le> n_ages (demo_projection [0, 0])"
    and h4: "list_all (\<lambda>g. g = 0) (columns (gx (demo_projection [0, 0])) ! 0)"
    by (simp_all add: demo_projection_def)
  show ?thesis
    using closed_population_conservation [OF demo_shapes demo_step h3 h4] demo_shapes demo_step h3 h4
    by simp
qed

theorem conservation_single_age_counterexample:
  "shapes_ok single_age_projection \<and>
   columns (gx single_age_projection) ! 0 = [0] \<and>
   step_projection single_age_projection 0 = Inr (step_result single_age_projection 0) \<and>
   columns (population (step_result single_age_projection 0)) ! 1 = [0] \<and>
   columns (deaths (step_result single_age_projection 0)) ! 0 = [0, 0] \<and>
   infants (step_result single_age_projection 0) ! 0 = 0 \<and>
   sum_list (columns (population (step_result single_age_projection 0)) ! (0 + 1)) +
     sum_list (columns (deaths (step_result single_age_projection 0)) ! 0) \<noteq>
   sum_list (columns (population single_age_projection) ! 0) +
     infants (step_result single_age_projection 0) ! 0"
proof -
  have "shapes_ok single_age_projection"
    by (simp add: shapes_ok_def single_age_projection_def matrix_ok_def)
  moreover have "columns (gx single_age_projection) ! 0 = [0]"
    by (simp add: single_age_projection_def)
  moreover have "columns (population (step_result single_age_projection 0)) ! 1 = [0]"
    by (simp add: step_result_def single_age_projection_def b_population_def b_infants_def
        b_births_def b_migrations_def Let_def)
  moreover have "columns (deaths (step_result single_age_projection 0)) ! 0 = [0, 0]"
    by (simp add: step_result_def single_age_projection_def b_deaths_def b_infants_def
        b_births_def b_migrations_def b_deaths_adult_def b_working_def Let_def)
  moreover have "infants (step_result single_age_projection 0) ! 0 = 0"
    by (simp add: step_result_def single_age_projection_def b_infants_def b_births_def Let_def)
  moreover have "columns (population single_age_projection) ! 0 = [100]"
    by (simp add: single_age_projection_def)
  ultimately show ?thesis
    using single_age_step by simp
qed

text \<open>
  C4. With at least two age groups, the oldest entry of the new population column is
  the survivors of the next-oldest group, plus the open group's own survivors, plus half
  of the oldest group's migrants; \<open>w\<close> is the previous column plus half the migrants.
\<close>

theorem open_age_group_accumulates:
  fixes P :: "'a::linordered_field PopulationProjection"
  assumes "shapes_ok P" and "step_projection P k = Inr P'" and "2 \<le> n_ages P"
  shows "let w = map2 (+) (columns (population P) ! k) (map ((*) 0.5) (columns (migrations P') ! k));
             d = columns (deaths P') ! k;
             n = n_ages P
         in columns (population P') ! (k + 1) ! (n - 1) =
              (w ! (n - 2) - d ! (n - 1)) + (w ! (n - 1) - d ! n) +
              0.5 * columns (migrations P') ! k ! (n - 1)"
proof -
  have r: "step_ready P k" and P': "P' = step_result P k"
    using assms(1,2) by (simp_all add: step_projection_Inr_iff)
  have k: "k < n_steps P" using r by (simp add: step_ready_def)
  note l = step_lengths [OF assms(1) k]
  let ?prev = "columns (population P) ! k"
  let ?gx = "columns (gx P) ! k"
  let ?w = "b_working ?prev ?gx"
  obtain m where n: "n_ages P = Suc (Suc m)"
    using assms(3) by (metis One_nat_def Suc_1 Suc_le_D Suc_le_mono)
  have lw: "length ?w = Suc (Suc m)"
    using l n by (simp add: b_working_def b_migrations_def)
  have w: "map2 (+) ?prev (map ((*) 0.5) (b_migrations ?prev ?gx)) = ?w"
    by (simp add: b_working_def)
  have a: "b_aged ?w (b_deaths_adult (columns (sx P) ! k) ?w) ! Suc m =
      ?w ! m - b_deaths_adult (columns (sx P) ! k) ?w ! m +
      (?w ! Suc m - b_deaths_adult (columns (sx P) ! k) ?w ! Suc m)"
    using lw by (simp add: b_aged_nth)
  show ?thesis
    unfolding P' Let_def step_result_columns [OF assms(1) k] w
    using l n a by (simp add: b_population_def b_deaths_def Let_def del: upt_Suc)
qed

theorem open_age_group_accumulates_witness:
  "shapes_ok (demo_projection [1 / 2, 1 / 4]) \<and>
   step_projection (demo_projection [1 / 2, 1 / 4]) 0 =
     Inr (step_result (demo_projection [1 / 2, 1 / 4]) 0) \<and>
   2 \<le> n_ages (demo_projection [1 / 2, 1 / 4]) \<and>
   (let w = map2 (+) (columns (population (demo_projection [1 / 2, 1 / 4])) ! 0)
              (map ((*) 0.5) (columns (migrations (step_result (demo_projection [1 / 2, 1 / 4]) 0)) ! 0));
        d = columns (deaths (step_result (demo_projection [1 / 2, 1 / 4]) 0)) ! 0;
        n = n_ages (demo_projection [1 / 2, 1 / 4])
    in columns (population (step_result (demo_projection [1 / 2, 1 / 4]) 0)) ! (0 + 1) ! (n - 1) =
         (w ! (n - 2) - d ! (n - 1)) + (w ! (n - 1) - d ! n) +
         0.5 * columns (migrations (step_result (demo_projection [1 / 2, 1 / 4]) 0)) ! 0 ! (n - 1))"
proof -
  have h3: "2 \<le> n_ages (demo_projection [1 / 2, 1 / 4])"
    by (simp add: demo_projection_def)
  show ?thesis
    using open_age_group_accumulates [OF demo_shapes demo_step h3] demo_shapes demo_step h3
    by blast
qed

text \<open>
  C6. In a step that runs (so that \<open>srb(k)\<close> is not \<open>-1\<close>), the infants are the sum of
  the step's births divided by \<open>1 + srb(k)\<close>, the infant deaths are the infants times
  \<open>1 - sx(0, k)\<close>, and the youngest entry of the new population column is the surviving
  infants plus half of the youngest group's migrants.
\<close>

theorem infant_accounting:
  fixes P :: "'a::linordered_field PopulationProjection"
  assumes "shapes_ok P" and "step_projection P k = Inr P'" and "srb P ! k \<noteq> - 1"
  shows "infants P' ! k = sum_list (columns (births P') ! k) / (1 + srb P ! k) \<and>
         columns (deaths P') ! k ! 0 = infants P' ! k * (1 - columns (sx P) ! k ! 0) \<and>
         columns (population P') ! (k + 1) ! 0 =
           infants P' ! k - columns (deaths P') ! k ! 0 + 0.5 * columns (migrations P') ! k ! 0"
proof -
  have r: "step_ready P k" and P': "P' = step_result P k"
    using assms(1,2) by (simp_all add: step_projection_Inr_iff)
  have k: "k < n_steps P" and n: "1 \<le> n_ages P" using r by (simp_all add: step_ready_def)
  note l = step_lengths [OF assms(1) k]
  have "[0..<n_ages P] = 0 # [1..<n_ages P]"
    using n by (simp add: upt_conv_Cons)
  then show ?thesis
    unfolding P' step_result_columns [OF assms(1) k]
    using l by (simp add: b_population_def b_deaths_def b_infants_def Let_def)
qed

theorem infant_accounting_witness:
  "shapes_ok (demo_projection [1 / 2, 1 / 4]) \<and>
   step_projection (demo_projection [1 / 2, 1 / 4]) 0 =
     Inr (step_result (demo_projection [1 / 2, 1 / 4]) 0) \<and>
   srb (demo_projection [1 / 2, 1 / 4]) ! 0 \<noteq> - 1 \<and>
   infants (step_result (demo_projection [1 / 2, 1 / 4]) 0) ! 0 =
     sum_list (columns (births (step_result (demo_projection [1 / 2, 1 / 4]) 0)) ! 0) /
       (1 + srb (demo_projection [1 / 2, 1 / 4]) ! 0) \<and>
   columns (deaths (step_result (demo_projection [1 / 2, 1 / 4]) 0)) ! 0 ! 0 =
     infants (step_result (demo_projection [1 / 2, 1 / 4]) 0) ! 0 *
       (1 - columns (sx (demo_projection [1 / 2, 1 / 4])) ! 0 ! 0) \<and>
   columns (population (step_result (demo_projection [1 / 2, 1 / 4]) 0)) ! (0 + 1) ! 0 =
     infants (step_result (demo_projection [1 / 2, 1 / 4]) 0) ! 0 -
     columns (deaths (step_result (demo_projection [1 / 2, 1 / 4]) 0)) ! 0 ! 0 +
     0.5 * columns (migrations (step_result (demo_projection [1 / 2, 1 / 4]) 0)) ! 0 ! 0"
proof -
  have h3: "srb (demo_projection [1 / 2, 1 / 4]) ! 0 \<noteq> - 1"
    by (simp add: demo_projection_def)
  show ?thesis
    using infant_accounting [OF demo_shapes demo_step h3] demo_shapes demo_step h3
    by blast
qed

text \<open>
  C8. A step that runs leaves the parameter tables and the scalars as they are, changes
  no column of the population other than \<open>k + 1\<close> and no column of deaths, births,
  migrations and infants other than \<open>k\<close>, and keeps the number of columns. What it writes
  is determined by the scalars, by population column \<open>k\<close> and by column \<open>k\<close> of \<open>sx\<close>,
  \<open>fx\<close>, \<open>gx\<close>, \<open>srb\<close>: on any container \<open>Q\<close> of consistent shapes that agrees with \<open>P\<close> on
  these, the step runs too and writes the same columns.
\<close>

theorem step_frame_and_locality:
  fixes P Q :: "'a::linordered_field PopulationProjection"
  assumes "shapes_ok P" and "step_projection P k = Inr P'"
    and "shapes_ok Q"
    and "n_ages Q = n_ages P" "n_steps Q = n_steps P" "n_fx Q = n_fx P"
      "fx_idx Q = fx_idx P" "age_span Q = age_span P"
    and "columns (population Q) ! k = columns (population P) ! k"
    and "columns (sx Q) ! k = columns (sx P) ! k" "columns (fx Q) ! k = columns (fx P) ! k"
      "columns (gx Q) ! k = columns (gx P) ! k" "srb Q ! k = srb P ! k"
  shows "(sx P' = sx P \<and> fx P' = fx P \<and> gx P' = gx P \<and> srb P' = srb P \<and>
          n_ages P' = n_ages P \<and> n_steps P' = n_steps P \<and> n_fx P' = n_fx P \<and>
          fx_idx P' = fx_idx P \<and> age_span P' = age_span P) \<and>
         (length (columns (population P')) = length (columns (population P)) \<and>
          length (columns (deaths P')) = length (columns (deaths P)) \<and>
          length (columns (births P')) = length (columns (births P)) \<and>
          length (columns (migrations P')) = length (columns (migrations P)) \<and>
          length (infants P') = length (infants P)) \<and>
         (\<forall>j. j \<noteq> k + 1 \<longrightarrow> columns (population P') ! j = columns (population P) ! j) \<and>
         (\<forall>j. j \<noteq> k \<longrightarrow>
            columns (deaths P') ! j = columns (deaths P) ! j \<and>
            columns (births P') ! j = columns (births P) ! j \<and>
            columns (migrations P') ! j = columns (migrations P) ! j \<and>
            infants P' ! j = infants P ! j) \<and>
         (\<exists>Q'. step_projection Q k = Inr Q' \<and>
            columns (population Q') ! (k + 1) = columns (population P') ! (k + 1) \<and>
            columns (deaths Q') ! k = columns (deaths P') ! k \<and>
            columns (births Q') ! k = columns (births P') ! k \<and>
            columns (migrations Q') ! k = columns (migrations P') ! k \<and>
            infants Q' ! k = infants P' ! k)"
proof -
  have r: "step_ready P k" and P': "P' = step_result P k"
    using assms(1,2) by (simp_all add: step_projection_Inr_iff)
  have k: "k < n_steps P" using r by (simp add: step_ready_def)
  have rq: "step_ready Q k"
    using r assms(4-8,13) by (simp add: step_ready_def)
  have kq: "k < n_steps Q" using rq by (simp add: step_ready_def)
  have q: "step_projection Q k = Inr (step_result Q k)"
    using assms(3) rq by (rule step_projection_closed)
  have same: "columns (population (step_result Q k)) ! (k + 1) = columns (population P') ! (k + 1)"
    "columns (deaths (step_result Q k)) ! k = columns (deaths P') ! k"
    "columns (births (step_result Q k)) ! k = columns (births P') ! k"
    "columns (migrations (step_result Q k)) ! k = columns (migrations P') ! k"
    "infants (step_result Q k) ! k = infants P' ! k"
    unfolding P' step_result_columns [OF assms(1) k] step_result_columns [OF assms(3) kq]
    using assms(4-13) by simp_all
  have len: "length (columns (population P')) = length (columns (population P))"
    "length (columns (deaths P')) = length (columns (deaths P))"
    "length (columns (births P')) = length (columns (births P))"
    "length (columns (migrations P')) = length (columns (migrations P))"
    "length (infants P') = length (infants P)"
    unfolding P' by (simp_all add: step_result_def Let_def)
  show ?thesis
    using q same len unfolding P' by (simp add: step_result_frame)
qed

lemma demo_other_shapes: "shapes_ok (demo_other_storage [g0, g1])"
  by (simp add: shapes_ok_def demo_other_storage_def demo_projection_def matrix_ok_def)

theorem step_frame_and_locality_witness:
  "shapes_ok (demo_projection [1 / 2, 1 / 4]) \<and>
   step_projection (demo_projection [1 / 2, 1 / 4]) 0 =
     Inr (step_result (demo_projection [1 / 2, 1 / 4]) 0) \<and>
   shapes_ok (demo_other_storage [1 / 2, 1 / 4]) \<and>
   columns (population (demo_other_storage [1 / 2, 1 / 4])) ! 1 \<noteq>
     columns (population (demo_projection [1 / 2, 1 / 4])) ! 1 \<and>
   sx (step_result (demo_projection [1 / 2, 1 / 4]) 0) = sx (demo_projection [1 / 2, 1 / 4]) \<and>
   columns (population (step_result (demo_projection [1 / 2, 1 / 4]) 0)) ! 0 = [4, 8] \<and>
   (\<exists>Q'. step_projection (demo_other_storage [1 / 2, 1 / 4]) 0 = Inr Q' \<and>
      columns (population Q') ! 1 =
        columns (population (step_result (demo_projection [1 / 2, 1 / 4]) 0)) ! 1 \<and>
      columns (deaths Q') ! 0 = columns (deaths (step_result (demo_projection [1 / 2, 1 / 4]) 0)) ! 0 \<and>
      infants Q' ! 0 = infants (step_result (demo_projection [1 / 2, 1 / 4]) 0) ! 0)"
proof -
  let ?P = "demo_projection [1 / 2, 1 / 4]"
  let ?Q = "demo_other_storage [1 / 2, 1 / 4]"
  have e: "n_ages ?Q = n_ages ?P" "n_steps ?Q = n_steps ?P" "n_fx ?Q = n_fx ?P"
    "fx_idx ?Q = fx_idx ?P" "age_span ?Q = age_span ?P"
    "columns (population ?Q) ! 0 = columns (population ?P) ! 0"
    "columns (sx ?Q) ! 0 = columns (sx ?P) ! 0" "columns (fx ?Q) ! 0 = columns (fx ?P) ! 0"
    "columns (gx ?Q) ! 0 = columns (gx ?P) ! 0" "srb ?Q ! 0 = srb ?P ! 0"
    by (simp_all add: demo_other_storage_def demo_projection_def)
  have d: "columns (population ?Q) ! 1 \<noteq> columns (population ?P) ! 1"
    "columns (population ?P) ! 0 = [4, 8]"
    by (simp_all add: demo_other_storage_def demo_projection_def)
  show ?thesis
    using step_frame_and_locality [OF demo_shapes demo_step demo_other_shapes e]
      demo_shapes demo_step demo_other_shapes d
    by auto
qed

subsection \<open>The Leslie matrix in closed form\<close>

lemma insert_loop:
  assumes "\<forall>i\<in>set ixs. val i = Inr (v i) \<and> 0 \<le> r i \<and> r i < int (srows m) \<and>
             0 \<le> c i \<and> c i < int (scols m)"
    and "distinct (map (\<lambda>i. (nat (r i), nat (c i))) ixs)"
    and "\<forall>i\<in>set ixs. (nat (r i), nat (c i)) \<notin> set (map fst (entries m))"
  shows "for_loop ixs (\<lambda>i m. ebind (val i) (\<lambda>x. insert_entry m (r i) (c i) x)) m =
         Inr (m\<lparr>entries := entries m @ map (\<lambda>i. ((nat (r i), nat (c i)), v i)) ixs\<rparr>)"
  using assms
proof (induction ixs arbitrary: m)
  case Nil
  then show ?case by simp
next
  case (Cons i ixs)
  let ?m = "m\<lparr>entries := entries m @ [((nat (r i), nat (c i)), v i)]\<rparr>"
  have st: "ebind (val i) (\<lambda>x. insert_entry m (r i) (c i) x) = Inr ?m"
    using Cons.prems by (simp add: insert_entry_def)
  have p1: "\<forall>i\<in>set ixs. val i = Inr (v i) \<and> 0 \<le> r i \<and> r i < int (srows ?m) \<and>
             0 \<le> c i \<and> c i < int (scols ?m)"
    using Cons.prems(1) by simp
  have p2: "distinct (map (\<lambda>i. (nat (r i), nat (c i))) ixs)"
    using Cons.prems(2) by simp
  have p3: "\<forall>j\<in>set ixs. (nat (r j), nat (c j)) \<notin> set (map fst (entries ?m))"
  proof
    fix j assume j: "j \<in> set ixs"
    have "(nat (r i), nat (c i)) \<notin> set (map (\<lambda>i. (nat (r i), nat (c i))) ixs)"
      using Cons.prems(2) by simp
    moreover have "(nat (r j), nat (c j)) \<in> set (map (\<lambda>i. (nat (r i), nat (c i))) ixs)"
      using j by auto
    ultimately have "(nat (r j), nat (c j)) \<noteq> (nat (r i), nat (c i))"
      by metis
    moreover have "(nat (r j), nat (c j)) \<notin> set (map fst (entries m))"
      using Cons.prems(3) j by simp
    ultimately show "(nat (r j), nat (c j)) \<notin> set (map fst (entries ?m))"
      by simp
  qed
  have "for_loop ixs (\<lambda>i m. ebind (val i) (\<lambda>x. insert_entry m (r i) (c i) x)) ?m =
        Inr (?m\<lparr>entries := entries ?m @ map (\<lambda>i. ((nat (r i), nat (c i)), v i)) ixs\<rparr>)"
    using p1 p2 p3 by (rule Cons.IH)
  then show ?case
    using st by simp
qed

lemma fert_leslie_closed:
  fixes sx_v :: "'a::linordered_field list"
  assumes "0 \<le> fidx" "fidx + int (length fx_v) \<le> int (length sx_v)"
  shows "ebind (segment sx_v fidx (int (length fx_v))) (\<lambda>sx_block.
         ebind (cw_binop (*) fx_v sx_block) (\<lambda>fs.
         ebind (add_to_segment (replicate (nat (int (length fx_v) + 1)) 0) 0 (int (length fx_v)) fs)
           (\<lambda>fert_leslie.
         ebind (add_to_segment fert_leslie 1 (int (length fx_v)) fx_v) g))) =
         g (map (\<lambda>i. (if i < length fx_v then fx_v ! i * sx_v ! (nat fidx + i) else 0) +
                     (if 0 < i then fx_v ! (i - 1) else 0))
              [0..<length fx_v + 1])"
proof -
  let ?n = "length fx_v"
  let ?blk = "take ?n (drop (nat fidx) sx_v)"
  let ?fs = "map2 (*) fx_v ?blk"
  let ?z = "replicate (?n + 1) (0::'a)"
  let ?F1 = "map (\<lambda>i. if 0 \<le> i \<and> i < 0 + length ?fs then ?z ! i + ?fs ! (i - 0) else ?z ! i) [0..<length ?z]"
  let ?F2 = "map (\<lambda>i. if 1 \<le> i \<and> i < 1 + length fx_v then ?F1 ! i + fx_v ! (i - 1) else ?F1 ! i) [0..<length ?F1]"
  have fn: "nat fidx + ?n \<le> length sx_v" using assms by linarith
  have lfs: "length ?fs = ?n" using fn by simp
  have s1: "segment sx_v fidx (int ?n) = Inr ?blk"
    using assms by (simp add: segment_def)
  have s2: "cw_binop (*) fx_v ?blk = Inr ?fs"
    using fn by (simp add: cw_binop_def)
  have e: "nat (int ?n + 1) = ?n + 1" by simp
  have "add_to_segment ?z (int 0) (int (length ?fs)) ?fs = Inr ?F1"
    by (rule add_to_segment_nat) simp
  then have s3: "add_to_segment (replicate (nat (int ?n + 1)) 0) 0 (int ?n) ?fs = Inr ?F1"
    unfolding e by (simp only: lfs of_nat_0)
  have "add_to_segment ?F1 (int 1) (int (length fx_v)) fx_v = Inr ?F2"
    by (rule add_to_segment_nat) simp
  then have s4: "add_to_segment ?F1 1 (int ?n) fx_v = Inr ?F2"
    by (simp only: of_nat_1)
  have "?F2 = map (\<lambda>i. (if i < length fx_v then fx_v ! i * sx_v ! (nat fidx + i) else 0) +
                     (if 0 < i then fx_v ! (i - 1) else 0)) [0..<length fx_v + 1]"
    using fn by (intro nth_equalityI) (auto simp: nth_append simp del: upt_Suc replicate.simps)
  then show ?thesis
    by (simp only: s1 s2 s3 s4 ebind_Inr)
qed

lemma make_leslie_matrix_closed:
  fixes sx_v :: "'a::linordered_field list"
  assumes len: "length sx_v = n + 1" and n: "2 \<le> n" and r: "1 + srb_v \<noteq> 0"
    and f: "1 \<le> fidx" "fidx + int (length fx_v) \<le> int n"
  shows "make_leslie_matrix sx_v fx_v srb_v aspan fidx =
           Inr \<lparr>srows = n, scols = n, entries = leslie_entries sx_v fx_v srb_v aspan fidx\<rparr>"
proof -
  let ?nf = "length fx_v"
  let ?K = "sx_v ! 0 * 0.5 * aspan / (1 + srb_v)"
  let ?F = "map (\<lambda>i. (if i < length fx_v then fx_v ! i * sx_v ! (nat fidx + i) else 0) +
                     (if 0 < i then fx_v ! (i - 1) else 0)) [0..<length fx_v + 1]"
  let ?FERT = "map (\<lambda>x. x * ?K) ?F"
  let ?L0 = "\<lparr>srows = nat (int (length sx_v) - 1), scols = nat (int (length sx_v) - 1),
              entries = ([] :: ((nat \<times> nat) \<times> 'a) list)\<rparr>"
  let ?E1 = "map (\<lambda>i. ((nat 0, nat (fidx + int i - 1)), ?FERT ! i)) [0..<nat (int ?nf + 1)]"
  let ?L1 = "?L0\<lparr>entries := entries ?L0 @ ?E1\<rparr>"
  let ?E2 = "map (\<lambda>i. ((nat (int i), nat (int i - 1)), sx_v ! i)) [1..<nat (int (length sx_v) - 1)]"
  let ?L2 = "?L1\<lparr>entries := entries ?L1 @ ?E2\<rparr>"
  have dim: "nat (int (length sx_v) - 1) = n" using len by simp
  have s1: "coeff_at sx_v 0 = Inr (sx_v ! 0)"
    using len by (simp add: coeff_at_def)
  have s2: "divide_checked (sx_v ! 0 * 0.5 * aspan) (1 + srb_v) = Inr ?K"
    using r by (simp add: divide_checked_def)
  have f0: "0 \<le> fidx" "fidx + int ?nf \<le> int (length sx_v)"
    using f len by simp_all
  note s3 = fert_leslie_closed [OF f0]
  have l1: "for_loop [0..<nat (int ?nf + 1)]
              (\<lambda>i m. ebind (coeff_at ?FERT (int i)) (\<lambda>v. insert_entry m 0 (fidx + int i - 1) v)) ?L0
            = Inr ?L1"
  proof (rule insert_loop)
    show "\<forall>i\<in>set [0..<nat (int ?nf + 1)]. coeff_at ?FERT (int i) = Inr (?FERT ! i) \<and>
            0 \<le> (0::int) \<and> 0 < int (srows ?L0) \<and> 0 \<le> fidx + int i - 1 \<and>
            fidx + int i - 1 < int (scols ?L0)"
      using f n len by (auto simp: coeff_at_def)
    show "distinct (map (\<lambda>i. (nat 0, nat (fidx + int i - 1))) [0..<nat (int ?nf + 1)])"
      using f by (auto simp: distinct_map inj_on_def)
    show "\<forall>i\<in>set [0..<nat (int ?nf + 1)]. (nat 0, nat (fidx + int i - 1)) \<notin> set (map fst (entries ?L0))"
      by simp
  qed
  have l2: "for_loop [1..<nat (int (length sx_v) - 1)]
              (\<lambda>i m. ebind (coeff_at sx_v (int i)) (\<lambda>v. insert_entry m (int i) (int i - 1) v)) ?L1
            = Inr ?L2"
  proof (rule insert_loop)
    show "\<forall>i\<in>set [1..<nat (int (length sx_v) - 1)]. coeff_at sx_v (int i) = Inr (sx_v ! i) \<and>
            0 \<le> int i \<and> int i < int (srows ?L1) \<and> 0 \<le> int i - 1 \<and> int i - 1 < int (scols ?L1)"
      using len by (auto simp: coeff_at_def)
    show "distinct (map (\<lambda>i. (nat (int i), nat (int i - 1))) [1..<nat (int (length sx_v) - 1)])"
      by (auto simp: distinct_map inj_on_def)
    show "\<forall>i\<in>set [1..<nat (int (length sx_v) - 1)].
            (nat (int i), nat (int i - 1)) \<notin> set (map fst (entries ?L1))"
      by auto
  qed
  have l3: "coeff_at sx_v (int (length sx_v) - 1) = Inr (sx_v ! n)"
    using len by (simp add: coeff_at_def)
  have l4: "insert_entry ?L2 (int (length sx_v) - 1 - 1) (int (length sx_v) - 1 - 1) (sx_v ! n) =
            Inr (?L2\<lparr>entries := entries ?L2 @ [((n - 1, n - 1), sx_v ! n)]\<rparr>)"
  proof -
    have a: "nat (int (length sx_v) - 1 - 1) = n - 1" using len by simp
    have "(n - 1, n - 1) \<notin> set (map fst (entries ?L2))"
      using n by auto
    then show ?thesis
      using n len unfolding insert_entry_def a by simp
  qed
  have e1: "?E1 = map (\<lambda>i. ((0, nat fidx + i - 1), fert_entry sx_v fx_v srb_v aspan fidx i)) [0..<?nf + 1]"
  proof -
    have "nat (int ?nf + 1) = ?nf + 1" by simp
    moreover have "\<And>i. nat (fidx + int i - 1) = nat fidx + i - 1"
      using f by linarith
    ultimately show ?thesis
      by (auto simp: fert_entry_def simp del: upt_Suc)
  qed
  have e2: "?E2 = map (\<lambda>i. ((i, i - 1), sx_v ! i)) [1..<length sx_v - 1]"
    using len by (auto simp: nat_diff_distrib')
  have fin: "?L2\<lparr>entries := entries ?L2 @ [((n - 1, n - 1), sx_v ! n)]\<rparr> =
             \<lparr>srows = n, scols = n, entries = leslie_entries sx_v fx_v srb_v aspan fidx\<rparr>"
    unfolding e1 e2 leslie_entries_def using len by simp
  show ?thesis
    unfolding make_leslie_matrix_def Let_def
    by (simp only: s1 s2 s3 l1 l2 l3 l4 fin ebind_Inr)
qed

lemma for_loop_invariant:
  assumes "for_loop ixs body s = Inr s'" and "I s"
    and "\<And>i s s'. i \<in> set ixs \<Longrightarrow> I s \<Longrightarrow> body i s = Inr s' \<Longrightarrow> I s'"
  shows "I s' \<and> (\<forall>i\<in>set ixs. \<exists>s1 s2. I s1 \<and> body i s1 = Inr s2)"
  using assms
proof (induction ixs arbitrary: s)
  case Nil
  then show ?case by simp
next
  case (Cons i ixs)
  from Cons.prems(1) obtain s1 where b: "body i s = Inr s1" and l: "for_loop ixs body s1 = Inr s'"
    by (auto simp: ebind_eq_Inr)
  have i1: "I s1" using Cons.prems(3) [of i s s1] Cons.prems(2) b by simp
  have "I s' \<and> (\<forall>i\<in>set ixs. \<exists>s1 s2. I s1 \<and> body i s1 = Inr s2)"
    using l i1 Cons.prems(3) by (intro Cons.IH) auto
  then show ?case
    using b Cons.prems(2) by auto
qed

lemma insert_entry_eq_Inr:
  "insert_entry m i j v = Inr m' \<longleftrightarrow>
     0 \<le> i \<and> i < int (srows m) \<and> 0 \<le> j \<and> j < int (scols m) \<and>
     (nat i, nat j) \<notin> set (map fst (entries m)) \<and>
     m' = m\<lparr>entries := entries m @ [((nat i, nat j), v)]\<rparr>"
  by (auto simp: insert_entry_def)

lemma make_leslie_matrix_single:
  fixes a :: "'a::linordered_field"
  assumes "1 + srb_v \<noteq> 0"
  shows "make_leslie_matrix [a, b] [] srb_v aspan 1 = Inl EntryExists"
  using assms
  by (simp add: make_leslie_matrix_def coeff_at_def divide_checked_def segment_def cw_binop_def
      add_to_segment_def assign_segment_def insert_entry_def Let_def)

lemma make_leslie_matrix_InrD:
  fixes sx_v :: "'a::linordered_field list"
  assumes "make_leslie_matrix sx_v fx_v srb_v aspan fidx = Inr L"
  shows "3 \<le> length sx_v \<and> 1 + srb_v \<noteq> 0 \<and> 1 \<le> fidx \<and>
         fidx + int (length fx_v) \<le> int (length sx_v) - 1"
proof -
  let ?L0 = "\<lparr>srows = nat (int (length sx_v) - 1), scols = nat (int (length sx_v) - 1),
              entries = ([] :: ((nat \<times> nat) \<times> 'a) list)\<rparr>"
  from assms obtain sx0 fert_k fert L1 where
    a: "coeff_at sx_v 0 = Inr sx0"
    and b: "divide_checked (sx0 * 0.5 * aspan) (1 + srb_v) = Inr fert_k"
    and c: "for_loop [0..<nat (int (length fx_v) + 1)]
              (\<lambda>i m. ebind (coeff_at fert (int i)) (\<lambda>v. insert_entry m 0 (fidx + int i - 1) v)) ?L0
            = Inr L1"
    unfolding make_leslie_matrix_def Let_def ebind_eq_Inr by blast
  have "sx_v \<noteq> []" using a by (auto simp: coeff_at_eq_Inr)
  then have ne: "1 \<le> length sx_v" by (cases sx_v) simp_all
  have r: "1 + srb_v \<noteq> 0" using b by (simp add: divide_checked_eq_Inr)
  let ?I = "\<lambda>m::'a sparse. scols m = nat (int (length sx_v) - 1)"
  have "?I L1 \<and> (\<forall>i\<in>set [0..<nat (int (length fx_v) + 1)]. \<exists>s1 s2. ?I s1 \<and>
          ebind (coeff_at fert (int i)) (\<lambda>v. insert_entry s1 0 (fidx + int i - 1) v) = Inr s2)"
    using c by (rule for_loop_invariant) (auto simp: ebind_eq_Inr insert_entry_eq_Inr)
  then have ex: "\<forall>i\<in>set [0..<nat (int (length fx_v) + 1)]. \<exists>s1 s2. ?I s1 \<and>
          ebind (coeff_at fert (int i)) (\<lambda>v. insert_entry s1 0 (fidx + int i - 1) v) = Inr s2"
    by simp
  have rng: "0 \<le> fidx + int i - 1 \<and> fidx + int i - 1 < int (length sx_v) - 1"
    if "i \<le> length fx_v" for i
  proof -
    have "i \<in> set [0..<nat (int (length fx_v) + 1)]" using that by simp
    then obtain s1 s2 where s: "scols s1 = nat (int (length sx_v) - 1)"
      and e: "ebind (coeff_at fert (int i)) (\<lambda>v. insert_entry s1 0 (fidx + int i - 1) v) = Inr s2"
      using ex by blast
    from e obtain v where "insert_entry s1 0 (fidx + int i - 1) v = Inr s2"
      by (auto simp: ebind_eq_Inr)
    then have "0 \<le> fidx + int i - 1 \<and> fidx + int i - 1 < int (scols s1)"
      by (simp add: insert_entry_eq_Inr)
    moreover have "int (nat (int (length sx_v) - 1)) = int (length sx_v) - 1"
      using ne by linarith
    ultimately show ?thesis unfolding s by linarith
  qed
  have f1: "1 \<le> fidx" using rng [of 0] by simp
  have f2: "fidx + int (length fx_v) \<le> int (length sx_v) - 1" using rng [of "length fx_v"] by simp
  have "length sx_v \<noteq> 2"
  proof
    assume l2: "length sx_v = 2"
    then have "length fx_v = 0" "fidx = 1" using f1 f2 by linarith+
    then have "fx_v = []" "fidx = 1" by simp_all
    moreover obtain x y where "sx_v = [x, y]"
      using l2 by (metis One_nat_def Suc_1 length_0_conv length_Suc_conv)
    ultimately show False
      using make_leslie_matrix_single [OF r, of x y aspan] assms by simp
  qed
  then show ?thesis
    using r f1 f2 by auto
qed

lemma make_leslie_matrix_Inr_iff:
  fixes sx_v :: "'a::linordered_field list"
  shows "make_leslie_matrix sx_v fx_v srb_v aspan fidx = Inr L \<longleftrightarrow>
     3 \<le> length sx_v \<and> 1 + srb_v \<noteq> 0 \<and> 1 \<le> fidx \<and>
     fidx + int (length fx_v) \<le> int (length sx_v) - 1 \<and>
     L = \<lparr>srows = length sx_v - 1, scols = length sx_v - 1,
          entries = leslie_entries sx_v fx_v srb_v aspan fidx\<rparr>"
proof
  assume s: "make_leslie_matrix sx_v fx_v srb_v aspan fidx = Inr L"
  note d = make_leslie_matrix_InrD [OF s]
  have "make_leslie_matrix sx_v fx_v srb_v aspan fidx =
      Inr \<lparr>srows = length sx_v - 1, scols = length sx_v - 1,
          entries = leslie_entries sx_v fx_v srb_v aspan fidx\<rparr>"
    using d by (intro make_leslie_matrix_closed) auto
  then show "3 \<le> length sx_v \<and> 1 + srb_v \<noteq> 0 \<and> 1 \<le> fidx \<and>
     fidx + int (length fx_v) \<le> int (length sx_v) - 1 \<and>
     L = \<lparr>srows = length sx_v - 1, scols = length sx_v - 1,
          entries = leslie_entries sx_v fx_v srb_v aspan fidx\<rparr>"
    using d s by simp
next
  assume a: "3 \<le> length sx_v \<and> 1 + srb_v \<noteq> 0 \<and> 1 \<le> fidx \<and>
     fidx + int (length fx_v) \<le> int (length sx_v) - 1 \<and>
     L = \<lparr>srows = length sx_v - 1, scols = length sx_v - 1,
          entries = leslie_entries sx_v fx_v srb_v aspan fidx\<rparr>"
  have "make_leslie_matrix sx_v fx_v srb_v aspan fidx =
      Inr \<lparr>srows = length sx_v - 1, scols = length sx_v - 1,
          entries = leslie_entries sx_v fx_v srb_v aspan fidx\<rparr>"
    using a by (intro make_leslie_matrix_closed) auto
  then show "make_leslie_matrix sx_v fx_v srb_v aspan fidx = Inr L"
    using a by simp
qed

lemma leslie_entries_set:
  "set (leslie_entries sx_v fx_v srb_v aspan fidx) =
     (\<lambda>t. ((0, nat fidx + t - 1), fert_entry sx_v fx_v srb_v aspan fidx t)) ` {..length fx_v} \<union>
     (\<lambda>i. ((i, i - 1), sx_v ! i)) ` {1..<length sx_v - 1} \<union>
     {((length sx_v - 2, length sx_v - 2), sx_v ! (length sx_v - 1))}"
proof -
  have "set [0..<length fx_v + 1] = {..length fx_v}" by auto
  then show ?thesis
    unfolding leslie_entries_def set_append set_map by simp
qed

lemma leslie_entries_mem:
  "((i, j), v) \<in> set (leslie_entries sx_v fx_v srb_v aspan fidx) \<longleftrightarrow>
     (\<exists>t\<le>length fx_v. i = 0 \<and> j = nat fidx + t - 1 \<and> v = fert_entry sx_v fx_v srb_v aspan fidx t) \<or>
     (1 \<le> i \<and> i < length sx_v - 1 \<and> j = i - 1 \<and> v = sx_v ! i) \<or>
     (i = length sx_v - 2 \<and> j = length sx_v - 2 \<and> v = sx_v ! (length sx_v - 1))"
  unfolding leslie_entries_set by (simp add: image_iff Bex_def) blast

lemma leslie_entries_distinct:
  assumes "3 \<le> length sx_v" "1 \<le> fidx"
  shows "distinct (map fst (leslie_entries sx_v fx_v srb_v aspan fidx))"
proof -
  have "inj_on (\<lambda>i. (0::nat, nat fidx + i - 1)) (set [0..<length fx_v + 1])"
    using assms(2) by (auto simp: inj_on_def)
  moreover have "inj_on (\<lambda>i::nat. (i, i - 1)) (set [1..<length sx_v - 1])"
    by (auto simp: inj_on_def)
  ultimately show ?thesis
    using assms(1) unfolding leslie_entries_def
    by (auto simp: distinct_map comp_def simp del: upt_Suc)
qed

lemma coeff_leslie:
  assumes "3 \<le> length sx_v" "1 \<le> fidx"
    and "((i, j), v) \<in> set (leslie_entries sx_v fx_v srb_v aspan fidx)"
  shows "coeff \<lparr>srows = r, scols = c, entries = leslie_entries sx_v fx_v srb_v aspan fidx\<rparr> i j = v"
  using leslie_entries_distinct [OF assms(1,2)] assms(3) by (simp add: coeff_def)

lemma coeff_leslie_nonzero:
  fixes sx_v :: "'a::linordered_field list"
  assumes "coeff \<lparr>srows = r, scols = c, entries = leslie_entries sx_v fx_v srb_v aspan fidx\<rparr> i j \<noteq> 0"
  shows "\<exists>v. ((i, j), v) \<in> set (leslie_entries sx_v fx_v srb_v aspan fidx)"
  using assms by (auto simp: coeff_def split: option.splits dest: map_of_SomeD)

lemma length_filter_le_1:
  assumes "inj_on f (set xs)" "distinct xs"
  shows "length (filter (\<lambda>e. f e = y) xs) \<le> 1"
proof -
  have d: "distinct (filter (\<lambda>e. f e = y) xs)" using assms(2) by simp
  have "card (set (filter (\<lambda>e. f e = y) xs)) \<le> 1"
  proof (rule card_le_Suc0_iff_eq [THEN iffD2, unfolded One_nat_def [symmetric]])
    show "finite (set (filter (\<lambda>e. f e = y) xs))" by simp
    show "\<forall>a\<in>set (filter (\<lambda>e. f e = y) xs). \<forall>b\<in>set (filter (\<lambda>e. f e = y) xs). a = b"
      using assms(1) by (auto simp: inj_on_def)
  qed
  then show ?thesis using distinct_card [OF d] by simp
qed

lemma leslie_col_nnz:
  fixes sx_v :: "'a::linordered_field list"
  assumes "3 \<le> length sx_v" "1 \<le> fidx"
  shows "col_nnz \<lparr>srows = r, scols = c, entries = leslie_entries sx_v fx_v srb_v aspan fidx\<rparr> j \<le> 2"
proof -
  let ?A = "map (\<lambda>i. ((0::nat, nat fidx + i - 1), fert_entry sx_v fx_v srb_v aspan fidx i)) [0..<length fx_v + 1]"
  let ?B = "map (\<lambda>i. ((i, i - 1), sx_v ! i)) [1..<length sx_v - 1] @
            [((length sx_v - 2, length sx_v - 2), sx_v ! (length sx_v - 1))]"
  have f1: "1 \<le> nat fidx" using assms(2) by simp
  have A: "length (filter (\<lambda>e. snd (fst e) = j) ?A) \<le> 1"
  proof (rule length_filter_le_1)
    have i: "x = y" if "nat fidx + x - Suc 0 = nat fidx + y - Suc 0" for x y :: nat
      using that f1 by linarith
    show "inj_on (\<lambda>e. snd (fst e)) (set ?A)"
      by (auto simp: inj_on_def dest: i)
    show "distinct ?A"
      by (auto simp: distinct_map inj_on_def dest: i simp del: upt_Suc)
  qed
  have B: "length (filter (\<lambda>e. snd (fst e) = j) ?B) \<le> 1"
  proof (rule length_filter_le_1)
    have i: "x = y" if "x - Suc 0 = y - Suc 0" "Suc 0 \<le> x" "Suc 0 \<le> y" for x y :: nat
      using that by linarith
    show "inj_on (\<lambda>e. snd (fst e)) (set ?B)"
      using assms(1) by (auto simp: inj_on_def dest: i)
    show "distinct ?B"
      using assms(1) by (auto simp: distinct_map inj_on_def dest: i)
  qed
  have "leslie_entries sx_v fx_v srb_v aspan fidx = ?A @ ?B"
    by (simp add: leslie_entries_def)
  then show ?thesis
    using A B by (simp add: col_nnz_def del: upt_Suc)
qed

subsection \<open>Claims about the Leslie matrix\<close>

lemma card_nonzero_le_nnz:
  fixes m :: "'a::zero sparse"
  shows "card {i. coeff m i j \<noteq> 0} \<le> col_nnz m j"
proof -
  let ?xs = "filter (\<lambda>e. snd (fst e) = j) (entries m)"
  have "{i. coeff m i j \<noteq> 0} \<subseteq> (\<lambda>e. fst (fst e)) ` set ?xs"
  proof
    fix i assume "i \<in> {i. coeff m i j \<noteq> 0}"
    then obtain v where "map_of (entries m) (i, j) = Some v"
      by (auto simp: coeff_def split: option.splits)
    then have "((i, j), v) \<in> set ?xs"
      by (auto dest: map_of_SomeD)
    then show "i \<in> (\<lambda>e. fst (fst e)) ` set ?xs"
      by force
  qed
  then have "card {i. coeff m i j \<noteq> 0} \<le> card ((\<lambda>e. fst (fst e)) ` set ?xs)"
    by (intro card_mono) simp_all
  also have "\<dots> \<le> card (set ?xs)" by (intro card_image_le) simp
  also have "\<dots> \<le> length ?xs" by (rule card_length)
  finally show ?thesis by (simp add: col_nnz_def)
qed

text \<open>
  C3, as amended. For at least two age groups, \<open>sx\<close> of length \<open>n_ages + 1\<close>, \<open>srb\<close> other
  than \<open>-1\<close>, \<open>1 \<le> fx_idx\<close> and \<open>fx_idx + n_fx - 1 \<le> n_ages - 1\<close>, the builder returns an
  \<open>n_ages\<close> by \<open>n_ages\<close> matrix with \<open>sx(i)\<close> at \<open>(i, i - 1)\<close> for \<open>i = 1..n_ages - 1\<close>, with
  \<open>sx(n_ages)\<close> at \<open>(n_ages - 1, n_ages - 1)\<close>, with multiples of \<open>fert_k\<close> in row 0 at the
  columns \<open>fx_idx - 1 .. fx_idx + n_fx - 1\<close>, with zero everywhere else, and with at most two
  entries (stored, and so non-zero) in every column.
\<close>

theorem leslie_matrix_structure:
  fixes sx_v :: "'a::linordered_field list"
  assumes "length sx_v = n + 1" and "2 \<le> n" and "srb_v \<noteq> - 1" and "1 \<le> fidx"
    and "fidx + int (length fx_v) - 1 \<le> int n - 1"
  shows "\<exists>L. make_leslie_matrix sx_v fx_v srb_v aspan fidx = Inr L \<and> srows L = n \<and> scols L = n \<and>
           (\<forall>i\<in>{1..n - 1}. coeff L i (i - 1) = sx_v ! i) \<and>
           coeff L (n - 1) (n - 1) = sx_v ! n \<and>
           (\<forall>j. fidx - 1 \<le> int j \<and> int j \<le> fidx + int (length fx_v) - 1 \<longrightarrow>
                (\<exists>c. coeff L 0 j = sx_v ! 0 * 0.5 * aspan / (1 + srb_v) * c)) \<and>
           (\<forall>i j. coeff L i j \<noteq> 0 \<longrightarrow>
                (1 \<le> i \<and> i \<le> n - 1 \<and> j = i - 1) \<or> (i = n - 1 \<and> j = n - 1) \<or>
                (i = 0 \<and> fidx - 1 \<le> int j \<and> int j \<le> fidx + int (length fx_v) - 1)) \<and>
           (\<forall>j. col_nnz L j \<le> 2 \<and> card {i. coeff L i j \<noteq> 0} \<le> 2)"
proof -
  let ?L = "\<lparr>srows = n, scols = n, entries = leslie_entries sx_v fx_v srb_v aspan fidx\<rparr>"
  have r: "1 + srb_v \<noteq> 0" using assms(3) by (simp add: add_eq_0_iff2)
  have l3: "3 \<le> length sx_v" using assms(1,2) by simp
  have f2: "fidx + int (length fx_v) \<le> int n" using assms(5) by simp
  have mk: "make_leslie_matrix sx_v fx_v srb_v aspan fidx = Inr ?L"
    using assms(1,2) r assms(4) f2 by (rule make_leslie_matrix_closed)
  note co = coeff_leslie [OF l3 assms(4), of _ _ _ fx_v srb_v aspan n n]
  have sub: "\<forall>i\<in>{1..n - 1}. coeff ?L i (i - 1) = sx_v ! i"
    using assms(1) by (auto intro!: co simp: leslie_entries_mem)
  have last: "coeff ?L (n - 1) (n - 1) = sx_v ! n"
    using assms(1) by (auto intro!: co simp: leslie_entries_mem)
  have top: "\<exists>c. coeff ?L 0 j = sx_v ! 0 * 0.5 * aspan / (1 + srb_v) * c"
    if "fidx - 1 \<le> int j \<and> int j \<le> fidx + int (length fx_v) - 1" for j
  proof -
    let ?t = "j + 1 - nat fidx"
    have t: "?t \<le> length fx_v" "j = nat fidx + ?t - 1"
      using that assms(4) by linarith+
    have "((0, j), fert_entry sx_v fx_v srb_v aspan fidx ?t) \<in>
            set (leslie_entries sx_v fx_v srb_v aspan fidx)"
      unfolding leslie_entries_mem using t by blast
    then have "coeff ?L 0 j = fert_entry sx_v fx_v srb_v aspan fidx ?t"
      by (rule co)
    then show ?thesis
      unfolding fert_entry_def by blast
  qed
  have zero: "(1 \<le> i \<and> i \<le> n - 1 \<and> j = i - 1) \<or> (i = n - 1 \<and> j = n - 1) \<or>
              (i = 0 \<and> fidx - 1 \<le> int j \<and> int j \<le> fidx + int (length fx_v) - 1)"
    if "coeff ?L i j \<noteq> 0" for i j
  proof -
    from coeff_leslie_nonzero [OF that] obtain v where
      "((i, j), v) \<in> set (leslie_entries sx_v fx_v srb_v aspan fidx)" ..
    then show ?thesis
      unfolding leslie_entries_mem using assms(1,2,4) by (elim disjE exE conjE) (simp; linarith)+
  qed
  have nnz: "col_nnz ?L j \<le> 2 \<and> card {i. coeff ?L i j \<noteq> 0} \<le> 2" for j
    using leslie_col_nnz [OF l3 assms(4), of n n fx_v srb_v aspan j]
      card_nonzero_le_nnz [of ?L j] by simp
  show ?thesis
    using mk sub last top zero nnz by (intro exI [of _ ?L]) simp
qed

theorem leslie_matrix_structure_witness:
  "length [1, 1 / 2, 1 / 2 :: rat] = 2 + 1 \<and> (2::nat) \<le> 2 \<and> (0::rat) \<noteq> - 1 \<and> (1::int) \<le> 1 \<and>
   (1::int) + int (length [1::rat]) - 1 \<le> int 2 - 1 \<and>
   (\<exists>L. make_leslie_matrix [1, 1 / 2, 1 / 2 :: rat] [1] 0 1 1 = Inr L \<and> srows L = 2 \<and> scols L = 2 \<and>
      (\<forall>i\<in>{1..2 - 1}. coeff L i (i - 1) = [1, 1 / 2, 1 / 2] ! i) \<and>
      coeff L (2 - 1) (2 - 1) = [1, 1 / 2, 1 / 2] ! 2 \<and>
      (\<forall>j. col_nnz L j \<le> 2 \<and> card {i. coeff L i j \<noteq> 0} \<le> 2))"
proof -
  have h: "length [1, 1 / 2, 1 / 2 :: rat] = 2 + 1" "(2::nat) \<le> 2" "(0::rat) \<noteq> - 1" "(1::int) \<le> 1"
    "(1::int) + int (length [1::rat]) - 1 \<le> int 2 - 1"
    by simp_all
  from leslie_matrix_structure [OF h, of 1] obtain L where
    "make_leslie_matrix [1, 1 / 2, 1 / 2 :: rat] [1] 0 1 1 = Inr L \<and> srows L = 2 \<and> scols L = 2 \<and>
      (\<forall>i\<in>{1..2 - 1}. coeff L i (i - 1) = [1, 1 / 2, 1 / 2] ! i) \<and>
      coeff L (2 - 1) (2 - 1) = [1, 1 / 2, 1 / 2] ! 2 \<and>
      (\<forall>j. col_nnz L j \<le> 2 \<and> card {i. coeff L i j \<noteq> 0} \<le> 2)"
    by blast
  then show ?thesis using h by blast
qed

theorem leslie_single_age_counterexample:
  "length [1, 1 :: rat] = 1 + 1 \<and> (0::rat) \<noteq> - 1 \<and> (1::int) \<le> 1 \<and>
   (1::int) + int (length ([] :: rat list)) - 1 \<le> int 1 - 1 \<and>
   make_leslie_matrix [1, 1 :: rat] [] 0 1 1 = Inl EntryExists"
  using make_leslie_matrix_single [of "0::rat" 1 1 1] by simp

text \<open>
  C10. Whenever the builder returns a matrix, its top-row entry at column
  \<open>fx_idx - 1 + i\<close>, for \<open>i = 0..n_fx\<close>, is \<open>fert_k\<close> times the blend of \<open>fx(i) * sx(fx_idx + i)\<close>
  (absent for \<open>i = n_fx\<close>) and \<open>fx(i - 1)\<close> (absent for \<open>i = 0\<close>); the second term carries no
  survivorship factor.
\<close>

theorem fertility_top_row:
  fixes sx_v :: "'a::linordered_field list"
  assumes "make_leslie_matrix sx_v fx_v srb_v aspan fidx = Inr L" and "i \<le> length fx_v"
  shows "coeff L 0 (nat (fidx - 1 + int i)) =
           sx_v ! 0 * 0.5 * aspan / (1 + srb_v) *
             ((if i < length fx_v then fx_v ! i * sx_v ! nat (fidx + int i) else 0) +
              (if 0 < i then fx_v ! (i - 1) else 0))"
proof -
  have d: "3 \<le> length sx_v" "1 \<le> fidx"
    and L: "L = \<lparr>srows = length sx_v - 1, scols = length sx_v - 1,
                 entries = leslie_entries sx_v fx_v srb_v aspan fidx\<rparr>"
    using assms(1) by (simp_all add: make_leslie_matrix_Inr_iff)
  have c: "nat (fidx - 1 + int i) = nat fidx + i - 1" "nat (fidx + int i) = nat fidx + i"
    using d(2) by linarith+
  have "((0, nat fidx + i - 1), fert_entry sx_v fx_v srb_v aspan fidx i) \<in>
          set (leslie_entries sx_v fx_v srb_v aspan fidx)"
    unfolding leslie_entries_mem using assms(2) by blast
  then have "coeff L 0 (nat fidx + i - 1) = fert_entry sx_v fx_v srb_v aspan fidx i"
    unfolding L by (rule coeff_leslie [OF d])
  then show ?thesis
    unfolding c by (simp add: fert_entry_def)
qed

theorem fertility_top_row_witness:
  "make_leslie_matrix [1, 1 / 2, 1 / 2 :: rat] [1] 0 1 1 =
     Inr \<lparr>srows = 2, scols = 2, entries = leslie_entries [1, 1 / 2, 1 / 2] [1] 0 1 1\<rparr> \<and>
   (1::nat) \<le> length [1::rat] \<and>
   coeff \<lparr>srows = 2, scols = 2, entries = leslie_entries [1, 1 / 2, 1 / 2 :: rat] [1] 0 1 1\<rparr> 0 1 = 1 / 2"
proof -
  have h1: "make_leslie_matrix [1, 1 / 2, 1 / 2 :: rat] [1] 0 1 1 =
     Inr \<lparr>srows = 2, scols = 2, entries = leslie_entries [1, 1 / 2, 1 / 2] [1] 0 1 1\<rparr>"
    by (rule make_leslie_matrix_closed) simp_all
  have h2: "(1::nat) \<le> length [1::rat]" by simp
  show ?thesis
    using fertility_top_row [OF h1 h2] h1 h2 by simp
qed

subsection \<open>Division by zero\<close>

lemma no_dz_ebind:
  assumes "r \<noteq> Inl DivisionByZero" and "\<And>x. r = Inr x \<Longrightarrow> f x \<noteq> Inl DivisionByZero"
  shows "ebind r f \<noteq> Inl DivisionByZero"
  using assms by (cases r) simp_all

lemma no_dz_for_loop:
  assumes "\<And>i s. body i s \<noteq> Inl DivisionByZero"
  shows "for_loop ixs body s \<noteq> Inl DivisionByZero"
  by (induction ixs arbitrary: s) (simp_all add: assms no_dz_ebind)

lemma no_dz_primitives:
  "coeff_at xs i \<noteq> Inl DivisionByZero"
  "set_coeff xs i v \<noteq> Inl DivisionByZero"
  "segment xs a n \<noteq> Inl DivisionByZero"
  "cw_binop f xs ys \<noteq> Inl DivisionByZero"
  "assign_fixed xs ys \<noteq> Inl DivisionByZero"
  "assign_segment xs a n ys \<noteq> Inl DivisionByZero"
  "insert_entry m i j v \<noteq> Inl DivisionByZero"
  "col M k \<noteq> Inl DivisionByZero"
  "set_col M k xs \<noteq> Inl DivisionByZero"
  "map_from_col M k n \<noteq> Inl DivisionByZero"
  "sparse_times m' xs' \<noteq> Inl DivisionByZero"
  "(Inr y :: error + 'b) \<noteq> Inl DivisionByZero"
  by (simp_all add: coeff_at_def set_coeff_def segment_def cw_binop_def assign_fixed_def
      assign_segment_def insert_entry_def col_def set_col_def map_from_col_def sparse_times_def)

lemma no_dz_add_to_segment: "add_to_segment xs a n ys \<noteq> Inl DivisionByZero"
  unfolding add_to_segment_def by (intro no_dz_ebind no_dz_primitives)

lemma no_dz_aging: "aging d a p \<noteq> Inl DivisionByZero"
  unfolding aging_def by (intro no_dz_ebind no_dz_primitives)

lemma no_dz_divide: "b \<noteq> 0 \<Longrightarrow> divide_checked a b \<noteq> Inl DivisionByZero"
  by (simp add: divide_checked_def)

lemma no_dz_make_leslie_matrix:
  fixes srb_v :: "'a::linordered_field"
  assumes "- 1 < srb_v"
  shows "make_leslie_matrix sx_v fx_v srb_v aspan fidx \<noteq> Inl DivisionByZero"
proof -
  have "1 + srb_v \<noteq> 0" using assms by linarith
  then show ?thesis
    unfolding make_leslie_matrix_def Let_def
    by (intro no_dz_ebind no_dz_primitives no_dz_add_to_segment no_dz_for_loop no_dz_divide)
qed

lemma no_dz_step_body:
  fixes srb_v :: "'a::linordered_field list"
  assumes "\<forall>r\<in>set srb_v. - 1 < r"
  shows "step_body n nfx fidx aspan srb_v k sx_t fx_t gx_t prev p m d b \<noteq> Inl DivisionByZero"
proof -
  have "1 + r \<noteq> 0" if "coeff_at srb_v (int k) = Inr r" for r
  proof -
    have "r \<in> set srb_v" using that by (auto simp: coeff_at_eq_Inr)
    then have "- 1 < r" using assms by blast
    then show ?thesis by linarith
  qed
  then show ?thesis
    unfolding step_body_def Let_def
    by (intro no_dz_ebind no_dz_primitives no_dz_for_loop no_dz_aging no_dz_divide)
qed

lemma no_dz_step_projection:
  fixes P :: "'a::linordered_field PopulationProjection"
  assumes "\<forall>r\<in>set (srb P). - 1 < r"
  shows "step_projection P k \<noteq> Inl DivisionByZero"
proof -
  have tail: "(case res of (population_t, migrations_t, deaths_t, infants_t, births_t) \<Rightarrow>
     ebind (set_col (population P) (k + 1) population_t) (\<lambda>population_m.
     ebind (set_col (migrations P) k migrations_t) (\<lambda>migrations_m.
     ebind (set_col (deaths P) k deaths_t) (\<lambda>deaths_m.
     ebind (set_col (births P) k births_t) (\<lambda>births_m.
     Inr (P\<lparr>population := population_m, deaths := deaths_m, births := births_m,
             infants := (infants P)[k := infants_t],
             migrations := migrations_m\<rparr>)))))) \<noteq> Inl DivisionByZero"
    for res :: "'a list \<times> 'a list \<times> 'a list \<times> 'a \<times> 'a list"
    by (cases res) (simp only: prod.case, intro no_dz_ebind no_dz_primitives)
  show ?thesis
    unfolding step_projection_def
    by (intro no_dz_ebind no_dz_primitives no_dz_step_body assms tail)
qed

lemma no_dz_ccmpp_leslie:
  fixes srb_v :: "'a::linordered_field list"
  assumes "\<forall>r\<in>set srb_v. - 1 < r"
  shows "ccmpp_leslie basepop sx_m fx_m gx_m srb_v aspan fidx \<noteq> Inl DivisionByZero"
proof -
  have "make_leslie_matrix s f r aspan fidx \<noteq> Inl DivisionByZero"
    if "coeff_at srb_v (int k) = Inr r" for s f r k
  proof -
    have "r \<in> set srb_v" using that by (auto simp: coeff_at_eq_Inr)
    then show ?thesis using assms by (intro no_dz_make_leslie_matrix) blast
  qed
  then show ?thesis
    unfolding ccmpp_leslie_def leslie_step_def Let_def
    by (intro no_dz_ebind no_dz_primitives no_dz_for_loop)
qed

lemma srb_step_projection: "step_projection P k = Inr P' \<Longrightarrow> srb P' = srb P"
  by (auto simp: step_projection_def ebind_eq_Inr)

lemma no_dz_for_loop_inv:
  assumes "I s" and "\<And>i s s'. I s \<Longrightarrow> body i s = Inr s' \<Longrightarrow> I s'"
    and "\<And>i s. I s \<Longrightarrow> body i s \<noteq> Inl DivisionByZero"
  shows "for_loop ixs body s \<noteq> Inl DivisionByZero"
  using assms(1)
proof (induction ixs arbitrary: s)
  case Nil
  then show ?case by simp
next
  case (Cons i ixs)
  show ?case
    unfolding for_loop.simps
    using Cons.prems assms(2) [of s i] assms(3) [of s i] Cons.IH
    by (intro no_dz_ebind) auto
qed

lemma no_dz_ccmpp:
  fixes srb_v :: "'a::linordered_field list"
  assumes "\<forall>r\<in>set srb_v. - 1 < r"
  shows "ccmpp basepop sx_m fx_m gx_m srb_v aspan fidx \<noteq> Inl DivisionByZero"
proof -
  have loop: "for_loop ixs (\<lambda>step proj. step_projection proj step) P \<noteq> Inl DivisionByZero"
    if "srb P = srb_v" for ixs and P :: "'a PopulationProjection"
  proof (rule no_dz_for_loop_inv [where I = "\<lambda>P. srb P = srb_v"])
    show "srb P = srb_v" by (rule that)
    show "srb s' = srb_v" if "srb s = srb_v" "step_projection s i = Inr s'" for i s s'
      using that srb_step_projection [of s i s'] by simp
    show "step_projection s i \<noteq> Inl DivisionByZero" if "srb s = srb_v" for i s
      using that assms by (intro no_dz_step_projection) simp
  qed
  have new: "PopulationProjection_new ages steps nfx fidx aspan basepop sx_m fx_m gx_m srb_v
      \<noteq> Inl DivisionByZero" for ages steps nfx
    unfolding PopulationProjection_new_def by (intro no_dz_ebind no_dz_primitives)
  have "srb P = srb_v"
    if "PopulationProjection_new ages steps nfx fidx aspan basepop sx_m fx_m gx_m srb_v = Inr P"
    for ages steps nfx P
    using that by (auto simp: PopulationProjection_new_def ebind_eq_Inr)
  then show ?thesis
    unfolding ccmpp_def Let_def
    by (intro no_dz_ebind new loop)
qed

text \<open>
  C9. The only divisions are those by \<open>1 + srb\<close> in \<open>make_leslie_matrix\<close> and in
  \<open>step_projection\<close>. When every entry of \<open>srb\<close> is greater than \<open>-1\<close>, neither function,
  nor either driver that calls them, ends in the division-by-zero branch, whatever the
  other inputs are.
\<close>

theorem no_division_by_zero:
  fixes P :: "'a::linordered_field PopulationProjection"
  assumes "\<forall>r\<in>set (srb P). - 1 < r"
  shows "(\<forall>r\<in>set (srb P). make_leslie_matrix sx_v fx_v r aspan fidx \<noteq> Inl DivisionByZero) \<and>
         step_projection P k \<noteq> Inl DivisionByZero \<and>
         ccmpp_leslie basepop sx_m fx_m gx_m (srb P) aspan fidx \<noteq> Inl DivisionByZero \<and>
         ccmpp basepop sx_m fx_m gx_m (srb P) aspan fidx \<noteq> Inl DivisionByZero"
proof (intro conjI ballI)
  fix r assume "r \<in> set (srb P)"
  then have "- 1 < r" using assms by blast
  then show "make_leslie_matrix sx_v fx_v r aspan fidx \<noteq> Inl DivisionByZero"
    by (rule no_dz_make_leslie_matrix)
next
  show "step_projection P k \<noteq> Inl DivisionByZero"
    using assms by (rule no_dz_step_projection)
next
  show "ccmpp_leslie basepop sx_m fx_m gx_m (srb P) aspan fidx \<noteq> Inl DivisionByZero"
    using assms by (rule no_dz_ccmpp_leslie)
next
  show "ccmpp basepop sx_m fx_m gx_m (srb P) aspan fidx \<noteq> Inl DivisionByZero"
    using assms by (rule no_dz_ccmpp)
qed

theorem no_division_by_zero_witness:
  "list_all (\<lambda>r. - 1 < r) (srb (demo_projection [0, 0])) \<and>
   make_leslie_matrix [1, 1 / 2, 1 / 2] [1] (srb (demo_projection [0, 0]) ! 0) 1 1 \<noteq>
     Inl DivisionByZero \<and>
   step_projection (demo_projection [0, 0]) 0 \<noteq> Inl DivisionByZero \<and>
   ccmpp_leslie [4, 8] (sx (demo_projection [0, 0])) (fx (demo_projection [0, 0]))
     (gx (demo_projection [0, 0])) (srb (demo_projection [0, 0])) 1 1 \<noteq> Inl DivisionByZero \<and>
   ccmpp [4, 8] (sx (demo_projection [0, 0])) (fx (demo_projection [0, 0]))
     (gx (demo_projection [0, 0])) (srb (demo_projection [0, 0])) 1 1 \<noteq> Inl DivisionByZero"
proof -
  have h: "\<forall>r\<in>set (srb (demo_projection [0, 0])). - 1 < r"
    and a: "list_all (\<lambda>r. - 1 < r) (srb (demo_projection [0, 0]))"
    and m: "srb (demo_projection [0, 0]) ! 0 \<in> set (srb (demo_projection [0, 0]))"
    by (simp_all add: demo_projection_def)
  show ?thesis
    using no_division_by_zero [OF h] a m by blast
qed

lemma division_by_zero_reachable:
  "make_leslie_matrix [1, 1 / 2, 1 / 2 :: rat] [1] (- 1) 1 1 = Inl DivisionByZero"
  by (simp add: make_leslie_matrix_def coeff_at_def divide_checked_def)

lemma ebind_Inr_right [simp]: "ebind r Inr = r"
  by (cases r) simp_all

lemma for_loop_upt_Suc:
  "for_loop [0..<Suc j] body s = ebind (for_loop [0..<j] body s) (body j)"
proof -
  have "for_loop [] body = Inr" by (rule ext) simp
  then have "for_loop [j] body = body j" by (intro ext) simp
  then show ?thesis by (simp add: for_loop_append)
qed

lemma matrix_ok_new: "matrix_ok (new_matrix r c) r c"
  by (simp add: matrix_ok_def new_matrix_def list_all_length)

lemma PopulationProjection_new_closed:
  fixes basepop :: "'a::linordered_field list"
  assumes "length basepop = ages"
  shows "PopulationProjection_new ages steps nfx fidx aspan basepop sx_m fx_m gx_m srb_v =
     Inr \<lparr>n_ages = ages, n_steps = steps, n_fx = nfx, fx_idx = fidx, age_span = aspan,
          sx = sx_m, fx = fx_m, gx = gx_m, srb = srb_v,
          population = (new_matrix ages (steps + 1))
             \<lparr>columns := (columns (new_matrix ages (steps + 1)))[0 := basepop]\<rparr>,
          deaths = new_matrix (ages + 1) steps,
          births = new_matrix nfx steps,
          infants = replicate steps 0,
          migrations = new_matrix ages steps\<rparr>"
  using assms set_col_ok [OF matrix_ok_new, of 0 "steps + 1" basepop ages]
  by (simp add: PopulationProjection_new_def)

subsection \<open>The boundary scenario\<close>

text \<open>
  C5. Three age groups of 100, full survival, a fertile group of rate zero from index 1,
  no migration, \<open>srb = 0\<close>, one step, any \<open>age_span\<close>: \<open>ccmpp\<close> returns a container whose
  population column 1 is \<open>[0, 100, 200]\<close>.
\<close>

theorem boundary_scenario:
  fixes aspan :: "'a::linordered_field"
  shows "ebind (ccmpp [100, 100, 100] \<lparr>nrows = 4, columns = [[1, 1, 1, 1]]\<rparr>
                  \<lparr>nrows = 1, columns = [[0]]\<rparr> \<lparr>nrows = 3, columns = [[0, 0, 0]]\<rparr> [0] aspan 1)
           (\<lambda>P. col (population P) 1) = Inr [0, 100, 200]"
proof -
  let ?base = "[100, 100, 100] :: 'a list"
  let ?sx = "\<lparr>nrows = 4, columns = [[1, 1, 1, 1 :: 'a]]\<rparr>"
  let ?fx = "\<lparr>nrows = 1, columns = [[0 :: 'a]]\<rparr>"
  let ?gx = "\<lparr>nrows = 3, columns = [[0, 0, 0 :: 'a]]\<rparr>"
  let ?P0 = "\<lparr>n_ages = length ?base, n_steps = length (columns ?sx), n_fx = nrows ?fx,
          fx_idx = 1, age_span = aspan, sx = ?sx, fx = ?fx, gx = ?gx, srb = [0],
          population = (new_matrix (length ?base) (length (columns ?sx) + 1))
             \<lparr>columns := (columns (new_matrix (length ?base) (length (columns ?sx) + 1)))[0 := ?base]\<rparr>,
          deaths = new_matrix (length ?base + 1) (length (columns ?sx)),
          births = new_matrix (nrows ?fx) (length (columns ?sx)),
          infants = replicate (length (columns ?sx)) 0,
          migrations = new_matrix (length ?base) (length (columns ?sx))\<rparr> :: 'a PopulationProjection"
  have new: "PopulationProjection_new (length ?base) (length (columns ?sx)) (nrows ?fx) 1 aspan
               ?base ?sx ?fx ?gx [0] = Inr ?P0"
    by (rule PopulationProjection_new_closed) simp
  have ok: "shapes_ok ?P0"
    by (simp add: shapes_ok_def matrix_ok_def new_matrix_def)
  have rdy: "step_ready ?P0 0"
    by (simp add: step_ready_def)
  have k: "0 < n_steps ?P0" by simp
  have step: "step_projection ?P0 0 = Inr (step_result ?P0 0)"
    using ok rdy by (rule step_projection_closed)
  have one: "[0..<length (columns ?sx)] = [0]" by simp
  have run: "ccmpp ?base ?sx ?fx ?gx [0] aspan 1 = Inr (step_result ?P0 0)"
    unfolding ccmpp_def Let_def new ebind_Inr one for_loop.simps step by simp
  have prev: "columns (population ?P0) ! 0 = ?base"
    by (simp add: new_matrix_def)
  have m: "b_migrations ?base [0, 0, 0] = [0, 0, 0]"
    by (simp add: b_migrations_def)
  have w: "b_working ?base [0, 0, 0] = ?base"
    by (simp add: b_working_def m)
  have da: "b_deaths_adult [1, 1, 1, 1] ?base = [0, 0, 0]"
    by (simp add: b_deaths_adult_def)
  have ag: "b_aged ?base [0, 0, 0] = [100, 100, 200]"
    by (simp add: b_aged_def)
  have bi: "b_births aspan 1 [0] ?base [100, 100, 200] = [0]"
    by (simp add: b_births_def)
  have inf: "b_infants aspan 1 0 [1, 1, 1, 1] [0] [0, 0, 0] ?base = 0"
    by (simp add: b_infants_def m w da ag bi)
  have pop: "b_population aspan 1 0 [1, 1, 1, 1] [0] [0, 0, 0] ?base = [0, 100, 200]"
    by (simp add: b_population_def m w da ag bi inf)
  have c: "columns (population (step_result ?P0 0)) ! (0 + 1) = [0, 100, 200]"
    unfolding step_result_columns(1) [OF ok k] prev using pop by simp
  have l: "length (columns (population (step_result ?P0 0))) = 2"
    by (simp add: step_result_def Let_def new_matrix_def)
  have "col (population (step_result ?P0 0)) 1 = Inr [0, 100, 200]"
    using c l by (simp add: col_def)
  then show ?thesis
    unfolding run by simp
qed

subsection \<open>The two projections agree\<close>

lemma b_deaths_adult_nth:
  "a < length w \<Longrightarrow> b_deaths_adult sx_t w ! a = w ! a * (1 - sx_t ! (a + 1))"
  by (simp add: b_deaths_adult_def del: upt_Suc)

lemma b_aged_survivors:
  fixes w :: "'a::linordered_field list"
  assumes "length w = n" "1 \<le> a" "a < n"
  shows "b_aged w (b_deaths_adult s w) ! a =
           s ! a * w ! (a - 1) + (if a + 1 = n then s ! n * w ! (n - 1) else 0)"
proof -
  let ?da = "b_deaths_adult s w"
  have e1: "?da ! (a - 1) = w ! (a - 1) * (1 - s ! a)"
    using assms by (simp add: b_deaths_adult_nth)
  have e2: "?da ! a = w ! a * (1 - s ! (a + 1))"
    using assms by (simp add: b_deaths_adult_nth)
  have "b_aged w ?da ! a =
        (w ! (a - 1) - ?da ! (a - 1)) + (if a + 1 = n then w ! a - ?da ! a else 0)"
    using assms by (simp add: b_aged_nth)
  also have "\<dots> = (w ! (a - 1) - w ! (a - 1) * (1 - s ! a)) +
        (if a + 1 = n then w ! a - w ! a * (1 - s ! (a + 1)) else 0)"
    by (simp only: e1 e2)
  also have "\<dots> = s ! a * w ! (a - 1) + (if a + 1 = n then s ! n * w ! (n - 1) else 0)"
    by (auto simp: algebra_simps)
  finally show ?thesis .
qed

lemma fert_row_sum:
  fixes s :: "'a::linordered_field list"
  assumes "1 \<le> fidx"
  shows "(\<Sum>i<Suc (length f). fert_entry s f r aspan fidx i * w ! (nat fidx + i - 1)) =
         s ! 0 * 0.5 * aspan / (1 + r) *
           (\<Sum>i<length f. f ! i * (s ! (nat fidx + i) * w ! (nat fidx + i - 1) + w ! (nat fidx + i)))"
proof -
  let ?K = "s ! 0 * 0.5 * aspan / (1 + r)"
  let ?F = "nat fidx"
  let ?A = "\<lambda>i. (if i < length f then f ! i * s ! (?F + i) else 0) * w ! (?F + i - 1)"
  let ?B = "\<lambda>i. (if 0 < i then f ! (i - 1) else 0) * w ! (?F + i - 1)"
  have F: "1 \<le> ?F" using assms by simp
  have "(\<Sum>i<Suc (length f). fert_entry s f r aspan fidx i * w ! (?F + i - 1)) =
        (\<Sum>i<Suc (length f). ?K * (?A i + ?B i))"
    by (intro sum.cong refl) (simp add: fert_entry_def algebra_simps)
  also have "\<dots> = ?K * ((\<Sum>i<Suc (length f). ?A i) + (\<Sum>i<Suc (length f). ?B i))"
    by (simp only: sum_distrib_left [symmetric] sum.distrib)
  also have "(\<Sum>i<Suc (length f). ?A i) = (\<Sum>i<length f. f ! i * s ! (?F + i) * w ! (?F + i - 1))"
    by simp
  also have "(\<Sum>i<Suc (length f). ?B i) = (\<Sum>i<length f. f ! i * w ! (?F + i))"
    using F by (simp add: sum.lessThan_Suc_shift del: sum.lessThan_Suc)
  also have "(\<Sum>i<length f. f ! i * s ! (?F + i) * w ! (?F + i - 1)) + (\<Sum>i<length f. f ! i * w ! (?F + i)) =
        (\<Sum>i<length f. f ! i * (s ! (?F + i) * w ! (?F + i - 1) + w ! (?F + i)))"
    by (simp add: sum.distrib [symmetric] algebra_simps)
  finally show ?thesis .
qed

lemma births_sum:
  fixes s :: "'a::linordered_field list"
  assumes "length w = n" "1 \<le> fidx" "fidx + int (length f) < int n"
  shows "sum_list (b_births aspan fidx f w (b_aged w (b_deaths_adult s w))) =
         0.5 * aspan *
           (\<Sum>i<length f. f ! i * (s ! (nat fidx + i) * w ! (nat fidx + i - 1) + w ! (nat fidx + i)))"
proof -
  let ?F = "nat fidx"
  have ag: "b_aged w (b_deaths_adult s w) ! (?F + i) = s ! (?F + i) * w ! (?F + i - 1)"
    if "i < length f" for i
  proof -
    have "1 \<le> ?F + i" "?F + i < n" "?F + i + 1 \<noteq> n"
      using assms(2,3) that by linarith+
    then show ?thesis
      using b_aged_survivors [OF assms(1), of "?F + i" s] by simp
  qed
  have "sum_list (b_births aspan fidx f w (b_aged w (b_deaths_adult s w))) =
        (\<Sum>i<length f. 0.5 * aspan * f ! i * w ! (?F + i) +
            0.5 * aspan * f ! i * b_aged w (b_deaths_adult s w) ! (?F + i))"
    by (simp add: b_births_def sum_list_upt_conv)
  also have "\<dots> = (\<Sum>i<length f. 0.5 * aspan *
        (f ! i * (s ! (?F + i) * w ! (?F + i - 1) + w ! (?F + i))))"
  proof (intro sum.cong refl)
    fix i assume "i \<in> {..<length f}"
    then have i: "i < length f" by simp
    show "0.5 * aspan * f ! i * w ! (?F + i) +
            0.5 * aspan * f ! i * b_aged w (b_deaths_adult s w) ! (?F + i) =
          0.5 * aspan * (f ! i * (s ! (?F + i) * w ! (?F + i - 1) + w ! (?F + i)))"
      unfolding ag [OF i] by (simp add: algebra_simps)
  qed
  finally show ?thesis
    by (simp only: sum_distrib_left)
qed

lemma leslie_row:
  fixes s :: "'a::linordered_field list"
  assumes "length s = n + 1" "2 \<le> n" "a < n"
  shows "sum_list (map (\<lambda>e. if fst (fst e) = a then snd e * w ! snd (fst e) else 0)
                    (leslie_entries s f r aspan fidx)) =
         (if a = 0 then \<Sum>i<Suc (length f). fert_entry s f r aspan fidx i * w ! (nat fidx + i - 1)
          else s ! a * w ! (a - 1) + (if a + 1 = n then s ! n * w ! (n - 1) else 0))"
proof -
  let ?h = "\<lambda>e::(nat \<times> nat) \<times> 'a. if fst (fst e) = a then snd e * w ! snd (fst e) else 0"
  have A: "sum_list (map ?h (map (\<lambda>i. ((0, nat fidx + i - 1), fert_entry s f r aspan fidx i))
                               [0..<length f + 1])) =
           (if a = 0 then \<Sum>i<Suc (length f). fert_entry s f r aspan fidx i * w ! (nat fidx + i - 1)
            else 0)"
    by (simp add: comp_def sum_list_upt_conv del: upt_Suc sum.lessThan_Suc)
  have "sum_list (map ?h (map (\<lambda>i. ((i, i - 1), s ! i)) [1..<length s - 1])) =
        (\<Sum>i\<in>{1..<n}. if i = a then s ! i * w ! (i - 1) else 0)"
    using assms(1) by (simp add: comp_def interv_sum_list_conv_sum_set_nat del: upt_Suc)
  also have "\<dots> = (if a = 0 then 0 else s ! a * w ! (a - 1))"
    using assms(3) by (auto simp: sum.delta)
  finally have B: "sum_list (map ?h (map (\<lambda>i. ((i, i - 1), s ! i)) [1..<length s - 1])) =
        (if a = 0 then 0 else s ! a * w ! (a - 1))" .
  have C: "?h ((length s - 2, length s - 2), s ! (length s - 1)) =
           (if a + 1 = n then s ! n * w ! (n - 1) else 0)"
    using assms by auto
  have "sum_list (map ?h (leslie_entries s f r aspan fidx)) =
        sum_list (map ?h (map (\<lambda>i. ((0, nat fidx + i - 1), fert_entry s f r aspan fidx i))
                               [0..<length f + 1])) +
        sum_list (map ?h (map (\<lambda>i. ((i, i - 1), s ! i)) [1..<length s - 1])) +
        ?h ((length s - 2, length s - 2), s ! (length s - 1))"
    unfolding leslie_entries_def by (simp del: upt_Suc map_map)
  then show ?thesis
    unfolding A B C using assms(2) by auto
qed

lemma leslie_apply:
  fixes s :: "'a::linordered_field list"
  assumes "length s = n + 1" "2 \<le> n" "1 + r \<noteq> 0" "1 \<le> fidx" "fidx + int (length f) < int n"
    and "length prev = n" "length g = n"
  shows "ebind (sparse_times \<lparr>srows = n, scols = n, entries = leslie_entries s f r aspan fidx\<rparr>
                  (b_working prev g))
           (\<lambda>lw. cw_binop (+) lw (map ((*) 0.5) (b_migrations prev g))) =
         Inr (b_population aspan fidx r s f g prev)"
proof -
  let ?w = "b_working prev g"
  let ?mig = "b_migrations prev g"
  let ?h = "\<lambda>a (e::(nat \<times> nat) \<times> 'a). if fst (fst e) = a then snd e * ?w ! snd (fst e) else 0"
  let ?row = "\<lambda>a. sum_list (map (?h a) (leslie_entries s f r aspan fidx))"
  let ?lw = "map ?row [0..<n]"
  let ?inf = "b_infants aspan fidx r s f g prev"
  have lw: "length ?w = n" and lmig: "length ?mig = n"
    using assms(6,7) by (simp_all add: b_working_def b_migrations_def)
  have st: "sparse_times \<lparr>srows = n, scols = n, entries = leslie_entries s f r aspan fidx\<rparr> ?w
            = Inr ?lw"
    using lw by (simp add: sparse_times_def)
  have top: "?row 0 = ?inf - ?inf * (1 - s ! 0)"
  proof -
    let ?S = "\<Sum>i<length f. f ! i * (s ! (nat fidx + i) * ?w ! (nat fidx + i - 1) + ?w ! (nat fidx + i))"
    have "?row 0 = s ! 0 * 0.5 * aspan / (1 + r) * ?S"
      using leslie_row [OF assms(1,2), of 0 ?w f r aspan fidx] assms(2) fert_row_sum [OF assms(4)]
      by simp
    moreover have "?inf = sum_list (b_births aspan fidx f ?w (b_aged ?w (b_deaths_adult s ?w))) / (1 + r)"
      by (simp add: b_infants_def Let_def)
    then have "?inf = 0.5 * aspan * ?S / (1 + r)"
      by (simp only: births_sum [OF lw assms(4,5)])
    ultimately have e: "?row 0 = s ! 0 * 0.5 * aspan / (1 + r) * ?S"
      "?inf = 0.5 * aspan * ?S / (1 + r)"
      by blast+
    have alg: "x * h * c / d * S = h * c * S / d - h * c * S / d * (1 - x)" for x h c d S :: 'a
      by (simp add: algebra_simps add_divide_distrib [symmetric])
    show ?thesis
      unfolding e by (rule alg)
  qed
  have rest: "?row a = b_aged ?w (b_deaths_adult s ?w) ! a" if "1 \<le> a" "a < n" for a
    using leslie_row [OF assms(1,2) that(2), of ?w f r aspan fidx] that
      b_aged_survivors [OF lw that, of s] by simp
  have "map2 (+) ?lw (map ((*) 0.5) ?mig) = b_population aspan fidx r s f g prev"
  proof (rule nth_equalityI)
    show "length (map2 (+) ?lw (map ((*) 0.5) ?mig)) = length (b_population aspan fidx r s f g prev)"
      using lmig assms(6) by (simp add: b_lengths)
  next
    fix a assume "a < length (map2 (+) ?lw (map ((*) 0.5) ?mig))"
    then have a: "a < n" using lmig by simp
    have "map2 (+) ?lw (map ((*) 0.5) ?mig) ! a = ?row a + 0.5 * ?mig ! a"
      using a lmig by (simp del: upt_Suc)
    moreover have "b_population aspan fidx r s f g prev ! a =
        (if a = 0 then ?inf - ?inf * (1 - s ! 0) else b_aged ?w (b_deaths_adult s ?w) ! a) +
        0.5 * ?mig ! a"
      using a assms(6) by (simp add: b_population_def Let_def del: upt_Suc)
    ultimately show "map2 (+) ?lw (map ((*) 0.5) ?mig) ! a = b_population aspan fidx r s f g prev ! a"
      using top rest [of a] a by (cases "a = 0") simp_all
  qed
  then show ?thesis
    unfolding st ebind_Inr using lmig by (simp add: cw_binop_def)
qed

lemma leslie_step_closed:
  fixes M :: "'a::linordered_field matrix"
  assumes M: "matrix_ok M n (steps + 1)" and sx: "matrix_ok sx_m (n + 1) steps"
    and fx: "matrix_ok fx_m nfx steps" and gx: "matrix_ok gx_m n steps"
    and l: "length srb_v = steps" and k: "k < steps" and n: "2 \<le> n"
    and f: "1 \<le> fidx" "fidx + int nfx < int n" and r: "1 + srb_v ! k \<noteq> 0"
  shows "leslie_step sx_m fx_m gx_m srb_v aspan fidx k M =
         Inr (M\<lparr>columns := (columns M)
                [k + 1 := b_population aspan fidx (srb_v ! k) (columns sx_m ! k) (columns fx_m ! k)
                            (columns gx_m ! k) (columns M ! k)]\<rparr>)"
proof -
  let ?p = "columns M ! k"
  let ?g = "columns gx_m ! k"
  let ?s = "columns sx_m ! k"
  let ?f = "columns fx_m ! k"
  let ?L = "\<lparr>srows = n, scols = n, entries = leslie_entries ?s ?f (srb_v ! k) aspan fidx\<rparr>"
  let ?pop = "b_population aspan fidx (srb_v ! k) ?s ?f ?g ?p"
  have k1: "k < steps + 1" using k by simp
  have lens: "length ?p = n" "length ?g = n" "length ?s = n + 1" "length ?f = nfx"
    using matrix_ok_nth [OF M k1] matrix_ok_nth [OF gx k] matrix_ok_nth [OF sx k]
      matrix_ok_nth [OF fx k] by simp_all
  have s1: "col M k = Inr ?p" using col_ok [OF M k1] .
  have s2: "col gx_m k = Inr ?g" using col_ok [OF gx k] .
  have s3: "cw_binop (*) ?p ?g = Inr (b_migrations ?p ?g)"
    using lens by (simp add: cw_binop_def b_migrations_def)
  have s4: "col sx_m k = Inr ?s" using col_ok [OF sx k] .
  have s5: "col fx_m k = Inr ?f" using col_ok [OF fx k] .
  have s6: "coeff_at srb_v (int k) = Inr (srb_v ! k)"
    using k l by (simp add: coeff_at_def)
  have s7: "make_leslie_matrix ?s ?f (srb_v ! k) aspan fidx = Inr ?L"
    using lens(3) n r f(1) by (rule make_leslie_matrix_closed) (use f(2) lens(4) in simp)
  have s8: "cw_binop (+) ?p (map ((*) 0.5) (b_migrations ?p ?g)) = Inr (b_working ?p ?g)"
    using lens by (simp add: cw_binop_def b_working_def b_migrations_def)
  have "ebind (sparse_times ?L (b_working ?p ?g))
           (\<lambda>lw. cw_binop (+) lw (map ((*) 0.5) (b_migrations ?p ?g))) = Inr ?pop"
    using lens(3) n r f(1) by (rule leslie_apply) (use f(2) lens in simp_all)
  then obtain lw where s9: "sparse_times ?L (b_working ?p ?g) = Inr lw"
    and s10: "cw_binop (+) lw (map ((*) 0.5) (b_migrations ?p ?g)) = Inr ?pop"
    by (auto simp: ebind_eq_Inr)
  have s11: "set_col M (k + 1) ?pop = Inr (M\<lparr>columns := (columns M)[k + 1 := ?pop]\<rparr>)"
    using M by (rule set_col_ok) (use k lens in \<open>simp_all add: b_lengths\<close>)
  show ?thesis
    unfolding leslie_step_def
    by (simp only: s1 s2 s3 s4 s5 s6 s7 s8 s9 s10 s11 ebind_Inr)
qed

lemma same_parameters_refl: "same_parameters P P"
  by (simp add: same_parameters_def)

lemma same_parameters_step: "same_parameters P Q \<Longrightarrow> same_parameters (step_result P k) Q"
  by (simp add: same_parameters_def step_result_frame)

lemma runs_agree:
  fixes P0 :: "'a::linordered_field PopulationProjection"
  assumes ok: "shapes_ok P0" and n: "2 \<le> n_ages P0"
    and f: "1 \<le> fx_idx P0" "fx_idx P0 + int (n_fx P0) < int (n_ages P0)"
    and r: "\<forall>r\<in>set (srb P0). - 1 < r" and j: "j \<le> n_steps P0"
  shows "\<exists>Pj. for_loop [0..<j] (\<lambda>step proj. step_projection proj step) P0 = Inr Pj \<and>
           shapes_ok Pj \<and> same_parameters Pj P0 \<and>
           for_loop [0..<j] (leslie_step (sx P0) (fx P0) (gx P0) (srb P0) (age_span P0) (fx_idx P0))
             (population P0) = Inr (population Pj)"
  using j
proof (induction j)
  case 0
  show ?case using ok by (simp add: same_parameters_refl)
next
  case (Suc j)
  then obtain Pj where
    d: "for_loop [0..<j] (\<lambda>step proj. step_projection proj step) P0 = Inr Pj"
    and okj: "shapes_ok Pj" and sp: "same_parameters Pj P0"
    and m: "for_loop [0..<j] (leslie_step (sx P0) (fx P0) (gx P0) (srb P0) (age_span P0) (fx_idx P0))
             (population P0) = Inr (population Pj)"
    by auto
  have jl: "j < n_steps P0" using Suc.prems by simp
  have eq: "n_ages Pj = n_ages P0" "n_steps Pj = n_steps P0" "n_fx Pj = n_fx P0"
    "fx_idx Pj = fx_idx P0" "age_span Pj = age_span P0" "sx Pj = sx P0" "fx Pj = fx P0"
    "gx Pj = gx P0" "srb Pj = srb P0"
    using sp by (simp_all add: same_parameters_def)
  have sh: "matrix_ok (sx P0) (n_ages P0 + 1) (n_steps P0)" "matrix_ok (fx P0) (n_fx P0) (n_steps P0)"
    "matrix_ok (gx P0) (n_ages P0) (n_steps P0)" "length (srb P0) = n_steps P0"
    using ok by (simp_all add: shapes_ok_def)
  have pm: "matrix_ok (population Pj) (n_ages P0) (n_steps P0 + 1)"
    using okj eq by (simp add: shapes_ok_def)
  have "srb P0 ! j \<in> set (srb P0)" using jl sh(4) by simp
  then have "- 1 < srb P0 ! j" using r by blast
  then have r1: "1 + srb P0 ! j \<noteq> 0" by linarith
  have rdy: "step_ready Pj j"
    using jl n f r1 eq by (simp add: step_ready_def)
  have st: "step_projection Pj j = Inr (step_result Pj j)"
    using okj rdy by (rule step_projection_closed)
  have ls: "leslie_step (sx P0) (fx P0) (gx P0) (srb P0) (age_span P0) (fx_idx P0) j (population Pj) =
        Inr (population (step_result Pj j))"
    using leslie_step_closed [OF pm sh(1,2,3,4) jl n f r1, of "age_span P0"] eq
    by (simp add: step_result_def Let_def)
  have "shapes_ok (step_result Pj j)"
    using okj jl eq by (intro shapes_ok_step_result) simp_all
  moreover have "same_parameters (step_result Pj j) P0"
    using sp by (rule same_parameters_step)
  ultimately show ?case
    unfolding for_loop_upt_Suc d m ebind_Inr using st ls by blast
qed

lemma shapes_ok_new:
  fixes basepop :: "'a::linordered_field list"
  assumes "matrix_ok sx_m (length basepop + 1) steps" "matrix_ok fx_m nfx steps"
    "matrix_ok gx_m (length basepop) steps" "length srb_v = steps"
  shows "shapes_ok \<lparr>n_ages = length basepop, n_steps = steps, n_fx = nfx, fx_idx = fidx,
          age_span = aspan, sx = sx_m, fx = fx_m, gx = gx_m, srb = srb_v,
          population = (new_matrix (length basepop) (steps + 1))
             \<lparr>columns := (columns (new_matrix (length basepop) (steps + 1)))[0 := basepop]\<rparr>,
          deaths = new_matrix (length basepop + 1) steps,
          births = new_matrix nfx steps,
          infants = replicate steps 0,
          migrations = new_matrix (length basepop) steps\<rparr>"
  using assms by (simp add: shapes_ok_def matrix_ok_new matrix_ok_update)

lemma projections_agree:
  fixes basepop :: "'a::linordered_field list"
  assumes sh: "matrix_ok sx_m (length basepop + 1) steps" "matrix_ok fx_m nfx steps"
      "matrix_ok gx_m (length basepop) steps" "length srb_v = steps"
    and r: "\<forall>r\<in>set srb_v. - 1 < r" and n: "2 \<le> length basepop"
    and f: "1 \<le> fidx" "fidx + int nfx < int (length basepop)"
  shows "\<exists>P. ccmpp basepop sx_m fx_m gx_m srb_v aspan fidx = Inr P \<and>
           ccmpp_leslie basepop sx_m fx_m gx_m srb_v aspan fidx = Inr (population P) \<and>
           shapes_ok P \<and> n_ages P = length basepop \<and> n_steps P = steps"
proof -
  let ?pop0 = "(new_matrix (length basepop) (steps + 1))
             \<lparr>columns := (columns (new_matrix (length basepop) (steps + 1)))[0 := basepop]\<rparr>"
  let ?P0 = "\<lparr>n_ages = length basepop, n_steps = steps, n_fx = nfx, fx_idx = fidx,
          age_span = aspan, sx = sx_m, fx = fx_m, gx = gx_m, srb = srb_v,
          population = ?pop0,
          deaths = new_matrix (length basepop + 1) steps,
          births = new_matrix nfx steps,
          infants = replicate steps 0,
          migrations = new_matrix (length basepop) steps\<rparr>"
  have st: "length (columns sx_m) = steps" and nf: "nrows fx_m = nfx"
    using sh(1,2) by (simp_all add: matrix_ok_def)
  have new: "PopulationProjection_new (length basepop) steps nfx fidx aspan basepop sx_m fx_m gx_m srb_v
             = Inr ?P0"
    by (rule PopulationProjection_new_closed) simp
  have sc: "set_col (new_matrix (length basepop) (steps + 1)) 0 basepop = Inr ?pop0"
    using matrix_ok_new by (rule set_col_ok) simp_all
  have ok: "shapes_ok ?P0" using sh by (rule shapes_ok_new)
  obtain P where
    d: "for_loop [0..<steps] (\<lambda>step proj. step_projection proj step) ?P0 = Inr P"
    and okP: "shapes_ok P" and sp: "same_parameters P ?P0"
    and m: "for_loop [0..<steps] (leslie_step sx_m fx_m gx_m srb_v aspan fidx) ?pop0 =
              Inr (population P)"
    using runs_agree [OF ok, of steps] n f r by auto
  have "ccmpp basepop sx_m fx_m gx_m srb_v aspan fidx = Inr P"
    unfolding ccmpp_def Let_def st nf new ebind_Inr using d .
  moreover have "ccmpp_leslie basepop sx_m fx_m gx_m srb_v aspan fidx = Inr (population P)"
    unfolding ccmpp_leslie_def Let_def st sc ebind_Inr using m .
  ultimately show ?thesis
    using okP sp by (auto simp: same_parameters_def)
qed

text \<open>
  Where the two projections do agree: for inputs of consistent shapes with
  \<open>n_ages \<ge> 2\<close>, every \<open>srb\<close> entry greater than \<open>-1\<close>, \<open>1 \<le> fx_idx\<close> and a fertile window
  that ends below the oldest, open age group (\<open>fx_idx + n_fx - 1 < n_ages - 1\<close>), both
  return, and for every step \<open>k\<close> in \<open>0..n_steps\<close> the total population of column \<open>k\<close> is the
  same in both.
\<close>

theorem projection_paths_agree:
  fixes basepop :: "'a::linordered_field list"
  assumes "matrix_ok sx_m (n + 1) steps" and "matrix_ok fx_m nfx steps"
    and "matrix_ok gx_m n steps" and "length srb_v = steps"
    and "\<forall>r\<in>set srb_v. - 1 < r" and "length basepop = n" and "2 \<le> n"
    and "1 \<le> fidx" and "fidx + int nfx - 1 < int n - 1" and "k \<le> steps"
  shows "total_leslie basepop sx_m fx_m gx_m srb_v aspan fidx k =
           total_direct basepop sx_m fx_m gx_m srb_v aspan fidx k \<and>
         (\<exists>t. total_direct basepop sx_m fx_m gx_m srb_v aspan fidx k = Inr t)"
proof -
  have f: "fidx + int nfx < int (length basepop)" using assms(6,9) by simp
  obtain P where d: "ccmpp basepop sx_m fx_m gx_m srb_v aspan fidx = Inr P"
    and l: "ccmpp_leslie basepop sx_m fx_m gx_m srb_v aspan fidx = Inr (population P)"
    and ok: "shapes_ok P" and st: "n_steps P = steps"
    using projections_agree [of sx_m basepop steps fx_m nfx gx_m srb_v fidx aspan] assms(1-8) f
    by auto
  have "length (columns (population P)) = steps + 1"
    using ok st by (simp add: shapes_ok_def matrix_ok_def)
  then have "col (population P) k = Inr (columns (population P) ! k)"
    using assms(10) by (simp add: col_def)
  then show ?thesis
    unfolding total_leslie_def total_direct_def d l by simp
qed

theorem projection_paths_agree_witness:
  "matrix_ok \<lparr>nrows = 4, columns = [[1 / 2, 1 / 2, 1 / 2, 1 / 4 :: rat]]\<rparr> (3 + 1) 1 \<and>
   matrix_ok \<lparr>nrows = 1, columns = [[1 :: rat]]\<rparr> 1 1 \<and>
   matrix_ok \<lparr>nrows = 3, columns = [[1 / 2, 0, 1 / 4 :: rat]]\<rparr> 3 1 \<and>
   length [1 :: rat] = 1 \<and> list_all (\<lambda>r. - 1 < r) [1 :: rat] \<and> length [4, 8, 16 :: rat] = 3 \<and>
   (2 :: nat) \<le> 3 \<and> (1 :: int) \<le> 1 \<and> (1 :: int) + int 1 - 1 < int 3 - 1 \<and> (1 :: nat) \<le> 1 \<and>
   total_leslie [4, 8, 16 :: rat] \<lparr>nrows = 4, columns = [[1 / 2, 1 / 2, 1 / 2, 1 / 4]]\<rparr>
     \<lparr>nrows = 1, columns = [[1]]\<rparr> \<lparr>nrows = 3, columns = [[1 / 2, 0, 1 / 4]]\<rparr> [1] 1 1 1 =
   total_direct [4, 8, 16 :: rat] \<lparr>nrows = 4, columns = [[1 / 2, 1 / 2, 1 / 2, 1 / 4]]\<rparr>
     \<lparr>nrows = 1, columns = [[1]]\<rparr> \<lparr>nrows = 3, columns = [[1 / 2, 0, 1 / 4]]\<rparr> [1] 1 1 1 \<and>
   (\<exists>t. total_direct [4, 8, 16 :: rat] \<lparr>nrows = 4, columns = [[1 / 2, 1 / 2, 1 / 2, 1 / 4]]\<rparr>
     \<lparr>nrows = 1, columns = [[1]]\<rparr> \<lparr>nrows = 3, columns = [[1 / 2, 0, 1 / 4]]\<rparr> [1] 1 1 1 = Inr t)"
proof -
  have h: "matrix_ok \<lparr>nrows = 4, columns = [[1 / 2, 1 / 2, 1 / 2, 1 / 4 :: rat]]\<rparr> (3 + 1) 1"
    "matrix_ok \<lparr>nrows = 1, columns = [[1 :: rat]]\<rparr> 1 1"
    "matrix_ok \<lparr>nrows = 3, columns = [[1 / 2, 0, 1 / 4 :: rat]]\<rparr> 3 1"
    "length [1 :: rat] = 1" "\<forall>r\<in>set [1 :: rat]. - 1 < r" "length [4, 8, 16 :: rat] = 3"
    "(2 :: nat) \<le> 3" "(1 :: int) \<le> 1" "(1 :: int) + int 1 - 1 < int 3 - 1" "(1 :: nat) \<le> 1"
    by (simp_all add: matrix_ok_def)
  have a: "list_all (\<lambda>r. - 1 < r) [1 :: rat]" by simp
  show ?thesis
    using projection_paths_agree [OF h, of 1] h(1-4,6-10) a by blast
qed

text \<open>
  C1. The two projections are meant to give the same total population at every step for
  every input with \<open>1 \<le> fx_idx\<close>, \<open>fx_idx + n_fx - 1 \<le> n_ages - 1\<close> and \<open>n_ages \<ge> 2\<close>. They do
  not when the oldest, open age group is fertile (\<open>fx_idx + n_fx - 1 = n_ages - 1\<close>): with
  two age groups, base population \<open>[0, 2]\<close>, full survival, fertility \<open>[1]\<close> from index 1, no
  migration, \<open>srb = 0\<close> and \<open>age_span = 1\<close>, every precondition holds, \<open>ccmpp_leslie\<close> gives
  the total 3 at step 1 and \<open>ccmpp\<close> gives 4. The direct step computes its second births
  estimate (line 154) from the oldest entry after the open group's own survivors were
  added (line 152); the top row of the Leslie matrix at column \<open>n_ages - 1\<close> (lines 21 to
  22) has \<open>fert_k * fx(n_fx - 1)\<close> only, without the \<open>sx(n_ages)\<close> term for these survivors.
\<close>

theorem projection_paths_differ_fertile_open_group:
  "matrix_ok \<lparr>nrows = 3, columns = [[1, 1, 1 :: rat]]\<rparr> (2 + 1) 1 \<and>
   matrix_ok \<lparr>nrows = 1, columns = [[1 :: rat]]\<rparr> 1 1 \<and>
   matrix_ok \<lparr>nrows = 2, columns = [[0, 0 :: rat]]\<rparr> 2 1 \<and>
   length [0 :: rat] = 1 \<and> (- 1 :: rat) < 0 \<and> length [0, 2 :: rat] = 2 \<and>
   (1 :: int) \<le> 1 \<and> (1 :: int) + int 1 - 1 \<le> int 2 - 1 \<and> (2 :: nat) \<le> 2 \<and>
   total_leslie [0, 2 :: rat] \<lparr>nrows = 3, columns = [[1, 1, 1]]\<rparr> \<lparr>nrows = 1, columns = [[1]]\<rparr>
     \<lparr>nrows = 2, columns = [[0, 0]]\<rparr> [0] 1 1 1 = Inr 3 \<and>
   total_direct [0, 2 :: rat] \<lparr>nrows = 3, columns = [[1, 1, 1]]\<rparr> \<lparr>nrows = 1, columns = [[1]]\<rparr>
     \<lparr>nrows = 2, columns = [[0, 0]]\<rparr> [0] 1 1 1 = Inr 4"
  by code_simp

text \<open>
  The same with three age groups, base population \<open>[1, 2, 3]\<close> and the fertile group at
  index 2: the totals at step 1 are \<open>17 / 2\<close> and \<open>10\<close>.
\<close>

lemma paths_differ_three_age_groups:
  "total_leslie [1, 2, 3 :: rat] \<lparr>nrows = 4, columns = [[1, 1, 1, 1]]\<rparr>
     \<lparr>nrows = 1, columns = [[1]]\<rparr> \<lparr>nrows = 3, columns = [[0, 0, 0]]\<rparr> [0] 1 2 1 = Inr (17 / 2) \<and>
   total_direct [1, 2, 3 :: rat] \<lparr>nrows = 4, columns = [[1, 1, 1, 1]]\<rparr>
     \<lparr>nrows = 1, columns = [[1]]\<rparr> \<lparr>nrows = 3, columns = [[0, 0, 0]]\<rparr> [0] 1 2 1 = Inr 10"
  by code_simp

subsection \<open>Zero fertility\<close>

lemma b_births_zero:
  fixes f :: "'a::linordered_field list"
  assumes "list_all (\<lambda>x. x = 0) f"
  shows "b_births aspan fidx f w aged = replicate (length f) 0"
  using assms by (intro nth_equalityI) (simp_all add: b_births_def list_all_length del: upt_Suc)

lemma no_births_step:
  fixes P :: "'a::linordered_field PopulationProjection"
  assumes ok: "shapes_ok P" and rdy: "step_ready P k"
    and z: "list_all (\<lambda>x. x = 0) (columns (fx P) ! k)"
  shows "no_births_at (step_result P k) k"
proof -
  have k: "k < n_steps P" and n: "1 \<le> n_ages P" using rdy by (simp_all add: step_ready_def)
  note l = step_lengths [OF ok k]
  let ?prev = "columns (population P) ! k"
  let ?w = "b_working ?prev (columns (gx P) ! k)"
  have b: "b_births (age_span P) (fx_idx P) (columns (fx P) ! k) ?w
             (b_aged ?w (b_deaths_adult (columns (sx P) ! k) ?w)) =
           replicate (n_fx P) 0"
    using b_births_zero [OF z] l by simp
  have i: "b_infants (age_span P) (fx_idx P) (srb P ! k) (columns (sx P) ! k) (columns (fx P) ! k)
             (columns (gx P) ! k) ?prev = 0"
    by (simp add: b_infants_def Let_def b sum_list_replicate)
  have u: "[0..<n_ages P] = 0 # [1..<n_ages P]"
    using n by (simp add: upt_conv_Cons)
  show ?thesis
    unfolding no_births_at_def step_result_columns [OF ok k]
    using l by (simp add: b i b_deaths_def b_population_def Let_def u list_all_length)
qed

lemma no_births_frame:
  assumes "no_births_at P k" "k < j"
  shows "no_births_at (step_result P j) k"
  using assms by (simp add: no_births_at_def step_result_frame)

lemma no_births_run:
  fixes P0 :: "'a::linordered_field PopulationProjection"
  assumes ok: "shapes_ok P0" and z: "list_all (list_all (\<lambda>x. x = 0)) (columns (fx P0))"
    and run: "for_loop [0..<j] (\<lambda>step proj. step_projection proj step) P0 = Inr Pj"
  shows "shapes_ok Pj \<and> same_parameters Pj P0 \<and> (\<forall>k<j. no_births_at Pj k)"
  using run
proof (induction j arbitrary: Pj)
  case 0
  then show ?case using ok by (simp add: same_parameters_refl)
next
  case (Suc j)
  from Suc.prems obtain Pm where
    r: "for_loop [0..<j] (\<lambda>step proj. step_projection proj step) P0 = Inr Pm"
    and s: "step_projection Pm j = Inr Pj"
    unfolding for_loop_upt_Suc by (auto simp: ebind_eq_Inr)
  have ih: "shapes_ok Pm" "same_parameters Pm P0" "\<forall>k<j. no_births_at Pm k"
    using Suc.IH [OF r] by simp_all
  have rdy: "step_ready Pm j" and Pj: "Pj = step_result Pm j"
    using s ih(1) by (simp_all add: step_projection_Inr_iff)
  have jl: "j < n_steps Pm" using rdy by (simp add: step_ready_def)
  have "j < length (columns (fx Pm))"
    using ih(1) jl by (simp add: shapes_ok_def matrix_ok_def)
  moreover have "fx Pm = fx P0" using ih(2) by (simp add: same_parameters_def)
  ultimately have zj: "list_all (\<lambda>x. x = 0) (columns (fx Pm) ! j)"
    using z by (simp add: list_all_length)
  have new: "no_births_at Pj j"
    unfolding Pj using ih(1) rdy zj by (rule no_births_step)
  have old: "no_births_at Pj k" if "k < j" for k
    unfolding Pj using ih(3) that by (intro no_births_frame) simp_all
  have "\<forall>k<Suc j. no_births_at Pj k"
    using new old by (auto simp: less_Suc_eq)
  moreover have "shapes_ok Pj"
    unfolding Pj using ih(1) jl by (rule shapes_ok_step_result)
  moreover have "same_parameters Pj P0"
    unfolding Pj using ih(2) by (rule same_parameters_step)
  ultimately show ?case by simp
qed

text \<open>
  C7. With inputs of consistent shapes and every entry of \<open>fx\<close> zero, the container that
  \<open>ccmpp\<close> returns has, at every step \<open>k\<close>, a births column of zeros, zero infants, zero
  infant deaths, and an age-0 entry of population column \<open>k + 1\<close> equal to half of the age-0
  migrants of the step.
\<close>

theorem zero_fertility_stability:
  fixes basepop :: "'a::linordered_field list"
  assumes "ccmpp basepop sx_m fx_m gx_m srb_v aspan fidx = Inr P"
    and "matrix_ok sx_m (length basepop + 1) steps" and "matrix_ok fx_m nfx steps"
    and "matrix_ok gx_m (length basepop) steps" and "length srb_v = steps"
    and "list_all (list_all (\<lambda>x. x = 0)) (columns fx_m)"
    and "k < steps"
  shows "list_all (\<lambda>b. b = 0) (columns (births P) ! k) \<and> infants P ! k = 0 \<and>
         columns (deaths P) ! k ! 0 = 0 \<and>
         columns (population P) ! (k + 1) ! 0 = 0.5 * columns (migrations P) ! k ! 0"
proof -
  let ?P0 = "\<lparr>n_ages = length basepop, n_steps = steps, n_fx = nfx, fx_idx = fidx,
          age_span = aspan, sx = sx_m, fx = fx_m, gx = gx_m, srb = srb_v,
          population = (new_matrix (length basepop) (steps + 1))
             \<lparr>columns := (columns (new_matrix (length basepop) (steps + 1)))[0 := basepop]\<rparr>,
          deaths = new_matrix (length basepop + 1) steps,
          births = new_matrix nfx steps,
          infants = replicate steps 0,
          migrations = new_matrix (length basepop) steps\<rparr>"
  have st: "length (columns sx_m) = steps" and nf: "nrows fx_m = nfx"
    using assms(2,3) by (simp_all add: matrix_ok_def)
  have new: "PopulationProjection_new (length basepop) steps nfx fidx aspan basepop sx_m fx_m gx_m srb_v
             = Inr ?P0"
    by (rule PopulationProjection_new_closed) simp
  have ok: "shapes_ok ?P0" using assms(2-5) by (rule shapes_ok_new)
  have run: "for_loop [0..<steps] (\<lambda>step proj. step_projection proj step) ?P0 = Inr P"
    using assms(1) unfolding ccmpp_def Let_def st nf new ebind_Inr .
  have z: "list_all (list_all (\<lambda>x. x = 0)) (columns (fx ?P0))"
    using assms(6) by simp
  have "no_births_at P k"
    using no_births_run [OF ok z run] assms(7) by blast
  then show ?thesis
    by (simp add: no_births_at_def)
qed

theorem zero_fertility_stability_witness:
  "ccmpp [4, 8] (sx zero_fertility_start) (fx zero_fertility_start) (gx zero_fertility_start)
     [0, 1] 1 1 = Inr (step_result (step_result zero_fertility_start 0) 1) \<and>
   matrix_ok (sx zero_fertility_start) (length [4, 8 :: rat] + 1) 2 \<and>
   matrix_ok (fx zero_fertility_start) 1 2 \<and>
   matrix_ok (gx zero_fertility_start) (length [4, 8 :: rat]) 2 \<and>
   length [0, 1 :: rat] = 2 \<and>
   list_all (list_all (\<lambda>x. x = 0)) (columns (fx zero_fertility_start)) \<and>
   (1 :: nat) < 2 \<and>
   list_all (\<lambda>b. b = 0) (columns (births (step_result (step_result zero_fertility_start 0) 1)) ! 1) \<and>
   infants (step_result (step_result zero_fertility_start 0) 1) ! 1 = 0 \<and>
   columns (deaths (step_result (step_result zero_fertility_start 0) 1)) ! 1 ! 0 = 0 \<and>
   columns (population (step_result (step_result zero_fertility_start 0) 1)) ! (1 + 1) ! 0 =
     0.5 * columns (migrations (step_result (step_result zero_fertility_start 0) 1)) ! 1 ! 0"
proof -
  have h1: "ccmpp [4, 8] (sx zero_fertility_start) (fx zero_fertility_start)
      (gx zero_fertility_start) [0, 1] 1 1 = Inr (step_result (step_result zero_fertility_start 0) 1)"
    by code_simp
  have h: "matrix_ok (sx zero_fertility_start) (length [4, 8 :: rat] + 1) 2"
    "matrix_ok (fx zero_fertility_start) 1 2"
    "matrix_ok (gx zero_fertility_start) (length [4, 8 :: rat]) 2"
    "length [0, 1 :: rat] = 2"
    "list_all (list_all (\<lambda>x. x = 0)) (columns (fx zero_fertility_start))"
    "(1 :: nat) < 2"
    by (simp_all add: zero_fertility_start_def matrix_ok_def)
  show ?thesis
    using zero_fertility_stability [OF h1 h] h1 h by blast
qed

end
